theory Spec2Isabelle
  imports Complex_Main
begin

text \<open>
  The duration parser and formatter of ms-parser: \<open>parse\<close> turns a string such as
  \<open>2 hours\<close> into milliseconds, \<open>format\<close> turns milliseconds into a string such as
  \<open>2h\<close>, and \<open>ms\<close> dispatches between the two on the type of its argument.  The
  first part embeds the three functions and what they use of JavaScript; the second
  part states what the specification says of them; the rest proves it, or proves what
  holds instead.
\<close>

section \<open>Numbers\<close>

text \<open>
  A JavaScript number is modelled as a rational (arithmetic is exact: the rounding of
  IEEE doubles is not modelled) or one of the three non-finite values; \<open>isFinite\<close> holds
  of the numbers \<open>Num x\<close> and of no other.  There is no negative zero.
\<close>

datatype number = Num rat | NaN | PosInfinity | NegInfinity

text \<open>
  The only rounding that is modelled is overflow when a decimal literal is converted:
  a value at or beyond \<open>2^1024 - 2^970\<close> (halfway between the largest double and
  \<open>2^1024\<close>) converts to an infinity.
\<close>

definition double_overflow :: rat where
  "double_overflow = 2 ^ 1024 - 2 ^ 970"

definition to_double :: "rat \<Rightarrow> number" where
  "to_double x =
     (if double_overflow \<le> x then PosInfinity
      else if x \<le> - double_overflow then NegInfinity
      else Num x)"

text \<open>\<open>a > b\<close> for a finite \<open>a\<close>: every comparison with NaN is false.\<close>

fun js_gt :: "rat \<Rightarrow> number \<Rightarrow> bool" where
  "js_gt a (Num b) = (b < a)"
| "js_gt a NaN = False"
| "js_gt a PosInfinity = False"
| "js_gt a NegInfinity = True"

text \<open>\<open>Math.round\<close>: the nearest integer, a tie going towards \<open>+\<infinity>\<close>.\<close>

definition Math_round :: "rat \<Rightarrow> rat" where
  "Math_round x = of_int \<lfloor>x + 1 / 2\<rfloor>"

text \<open>The time constants, lines 4 to 9 of the source.\<close>

definition SECOND :: rat where "SECOND = 1000"
definition MINUTE :: rat where "MINUTE = SECOND * 60"
definition HOUR :: rat where "HOUR = MINUTE * 60"
definition DAY :: rat where "DAY = HOUR * 24"
definition WEEK :: rat where "WEEK = DAY * 7"
definition YEAR :: rat where "YEAR = DAY * (36525 / 100)"

section \<open>Strings\<close>

text \<open>
  A string is a list of code units below 256.  The character classes are those of
  JavaScript restricted to that range.
\<close>

definition is_digit :: "char \<Rightarrow> bool" where
  "is_digit c \<longleftrightarrow> 48 \<le> (of_char c :: nat) \<and> (of_char c :: nat) \<le> 57"

definition is_upper :: "char \<Rightarrow> bool" where
  "is_upper c \<longleftrightarrow> 65 \<le> (of_char c :: nat) \<and> (of_char c :: nat) \<le> 90"

definition is_lower :: "char \<Rightarrow> bool" where
  "is_lower c \<longleftrightarrow> 97 \<le> (of_char c :: nat) \<and> (of_char c :: nat) \<le> 122"

text \<open>
  \<open>toLowerCase\<close> on the ASCII letters; the only strings it is applied to are the
  literal \<open>ms\<close> and a token matched by ASCII letters of the pattern.
\<close>

definition to_lower :: "char \<Rightarrow> char" where
  "to_lower c = (if is_upper c then char_of ((of_char c :: nat) + 32) else c)"

definition toLowerCase :: "string \<Rightarrow> string" where
  "toLowerCase s = map to_lower s"

text \<open>
  The case folding of a pattern with flag \<open>i\<close> (upper-casing).  A code unit of 128 or
  more never folds to one below 128, and the pattern holds ASCII characters only, so
  folding the ASCII letters decides every comparison the pattern makes.
\<close>

definition canonicalize :: "char \<Rightarrow> char" where
  "canonicalize c = (if is_lower c then char_of ((of_char c :: nat) - 32) else c)"

text \<open>White space and line terminators below 256, as \<open>trim\<close> strips them.\<close>

definition is_white_space :: "char \<Rightarrow> bool" where
  "is_white_space c \<longleftrightarrow> (of_char c :: nat) \<in> {9, 10, 11, 12, 13, 32, 160}"

definition trim :: "string \<Rightarrow> string" where
  "trim s = rev (dropWhile is_white_space (rev (dropWhile is_white_space s)))"

subsection \<open>Number to string\<close>

definition digit_char :: "nat \<Rightarrow> char" where
  "digit_char n = char_of (48 + n)"

fun nat_to_string :: "nat \<Rightarrow> string" where
  "nat_to_string n =
     (if n < 10 then [digit_char n]
      else nat_to_string (n div 10) @ [digit_char (n mod 10)])"

declare nat_to_string.simps [simp del]

fun frac_to_string :: "nat \<Rightarrow> rat \<Rightarrow> string" where
  "frac_to_string 0 r = []"
| "frac_to_string (Suc k) r =
     (if r = 0 then []
      else digit_char (nat \<lfloor>r * 10\<rfloor>) # frac_to_string k (r * 10 - of_int \<lfloor>r * 10\<rfloor>))"

text \<open>
  \<open>Number::toString\<close> in radix 10.  For an integer below \<open>10^21\<close> in magnitude and for a
  value with a short terminating decimal expansion this is what JavaScript prints;
  exponent notation and the shortest-round-trip digits of other doubles are not
  modelled.
\<close>

definition rat_to_string :: "rat \<Rightarrow> string" where
  "rat_to_string x =
     (let a = \<bar>x\<bar>; i = nat \<lfloor>a\<rfloor>; f = a - of_nat i
      in (if x < 0 then ''-'' else '''') @ nat_to_string i @
         (if f = 0 then '''' else ''.'' @ frac_to_string 20 f))"

fun number_to_string :: "number \<Rightarrow> string" where
  "number_to_string (Num x) = rat_to_string x"
| "number_to_string NaN = ''NaN''"
| "number_to_string PosInfinity = ''Infinity''"
| "number_to_string NegInfinity = ''-Infinity''"

subsection \<open>String to number\<close>

definition digit_val :: "char \<Rightarrow> nat" where
  "digit_val c = of_char c - 48"

definition digits_value :: "string \<Rightarrow> nat" where
  "digits_value ds = foldl (\<lambda>a c. 10 * a + digit_val c) 0 ds"

text \<open>
  \<open>parseFloat\<close> on a string made of \<open>-\<close>, \<open>.\<close> and digits, which is all that group 1 of
  the pattern can hold: an optional sign, the integer digits, and the fraction digits
  after a point; NaN when there is no digit where one must be.
\<close>

definition parseFloat :: "string \<Rightarrow> number" where
  "parseFloat s =
     (let neg = (take 1 s = ''-'');
          body = (if neg then drop 1 s else s);
          ip = takeWhile is_digit body;
          rest = dropWhile is_digit body;
          fp = (if take 1 rest = ''.'' then takeWhile is_digit (drop 1 rest) else [])
      in if ip = [] \<and> fp = [] then NaN
         else to_double ((if neg then - 1 else 1) *
                (of_nat (digits_value ip) + of_nat (digits_value fp) / 10 ^ length fp)))"

section \<open>The pattern\<close>

text \<open>
  Regular expressions as far as the pattern of \<open>parse\<close> needs them: a character
  (compared after case folding), \<open>\d\<close>, \<open>*\<close> and \<open>+\<close> on one of these, \<open>?\<close>,
  sequence and alternative.
\<close>

datatype atom = Ch char | Digit

datatype rx = Eps | One atom | Many atom | Many1 atom | Opt rx | Seq rx rx | Alt rx rx

fun atom_ok :: "atom \<Rightarrow> char \<Rightarrow> bool" where
  "atom_ok (Ch c) d = (canonicalize d = canonicalize c)"
| "atom_ok Digit d = is_digit d"

text \<open>
  A backtracking matcher: \<open>rx_run r s\<close> lists what is left of \<open>s\<close> after each way of
  matching \<open>r\<close> at its start, in the order a backtracking engine tries them (greedy
  quantifiers, alternatives left to right).
\<close>

fun many :: "atom \<Rightarrow> string \<Rightarrow> string list" where
  "many a [] = [[]]"
| "many a (d # r) = (if atom_ok a d then many a r @ [d # r] else [d # r])"

fun rx_run :: "rx \<Rightarrow> string \<Rightarrow> string list" where
  "rx_run Eps s = [s]"
| "rx_run (One a) s = (case s of [] \<Rightarrow> [] | d # r \<Rightarrow> if atom_ok a d then [r] else [])"
| "rx_run (Many a) s = many a s"
| "rx_run (Many1 a) s = (case s of [] \<Rightarrow> [] | d # r \<Rightarrow> if atom_ok a d then many a r else [])"
| "rx_run (Opt r) s = rx_run r s @ [s]"
| "rx_run (Seq p q) s = concat (map (rx_run q) (rx_run p s))"
| "rx_run (Alt p q) s = rx_run p s @ rx_run q s"

fun word :: "string \<Rightarrow> rx" where
  "word [] = Eps"
| "word [c] = One (Ch c)"
| "word (c # cs) = Seq (One (Ch c)) (word cs)"

fun alts :: "rx list \<Rightarrow> rx" where
  "alts [] = Eps"
| "alts [r] = r"
| "alts (r # rs) = Alt r (alts rs)"

text \<open>Group 1: \<open>-?(?:\d+)?\.?\d+\<close>\<close>

definition number_rx :: rx where
  "number_rx =
     Seq (Opt (One (Ch CHR ''-'')))
       (Seq (Opt (Many1 Digit)) (Seq (Opt (One (Ch CHR ''.''))) (Many1 Digit)))"

text \<open>Between the groups: a space, starred.\<close>

definition spaces_rx :: rx where
  "spaces_rx = Many (Ch CHR '' '')"

text \<open>
  Group 2:
  \<open>milliseconds?|msecs?|ms|seconds?|secs?|s|minutes?|mins?|m|hours?|hrs?|h|days?|d|weeks?|w|years?|yrs?|y\<close>
\<close>

definition plural_opt :: "string \<Rightarrow> rx" where
  "plural_opt w = Seq (word w) (Opt (One (Ch CHR ''s'')))"

definition unit_rx :: rx where
  "unit_rx = alts
     [plural_opt ''millisecond'', plural_opt ''msec'', word ''ms'',
      plural_opt ''second'', plural_opt ''sec'', word ''s'',
      plural_opt ''minute'', plural_opt ''min'', word ''m'',
      plural_opt ''hour'', plural_opt ''hr'', word ''h'',
      plural_opt ''day'', word ''d'',
      plural_opt ''week'', word ''w'',
      plural_opt ''year'', plural_opt ''yr'', word ''y'']"

text \<open>What a match consumed, given the input and what was left.\<close>

definition consumed :: "string \<Rightarrow> string \<Rightarrow> string" where
  "consumed s t = take (length s - length t) s"

text \<open>
  The whole pattern \<open>^(number) *(unit)?$\<close> on \<open>s\<close>: all complete matches in
  backtracking order, each with group 1 and group 2 (\<open>None\<close> when the optional group
  took no part).  \<open>exec\<close> returns the first.
\<close>

definition pattern_matches :: "string \<Rightarrow> (string \<times> string option) list" where
  "pattern_matches s =
     concat (map (\<lambda>t1.
       concat (map (\<lambda>t2.
           map (\<lambda>t3. (consumed s t1, Some (consumed t2 t3)))
               (filter (\<lambda>t3. t3 = []) (rx_run unit_rx t2))
           @ (if t2 = [] then [(consumed s t1, None)] else []))
         (rx_run spaces_rx t1)))
       (rx_run number_rx s))"

definition pattern_exec :: "string \<Rightarrow> (string \<times> string option) option" where
  "pattern_exec s = (case pattern_matches s of [] \<Rightarrow> None | m # _ \<Rightarrow> Some m)"

section \<open>The program\<close>

record options =
  maxLength :: "number option"
  long :: bool

definition no_options :: options where
  "no_options = \<lparr> maxLength = None, long = False \<rparr>"

datatype error =
    EmptyInput
  | TooLong number
  | InvalidFormat string
  | InvalidNumber string
  | UnknownUnit string
  | NotFinite
  | UnsupportedInputType

fun message :: "error \<Rightarrow> string" where
  "message EmptyInput = ''Value must be a non-empty string''"
| "message (TooLong m) =
     ''String too long. Maximum length is '' @ number_to_string m @ '' characters''"
| "message (InvalidFormat v) = ''Invalid time format: \"'' @ v @ ''\"''"
| "message (InvalidNumber n) = ''Invalid number: \"'' @ n @ ''\"''"
| "message (UnknownUnit u) = ''Unknown unit: \"'' @ u @ ''\"''"
| "message NotFinite = ''Value must be a finite number''"
| "message UnsupportedInputType = ''Value must be a string or number''"

text \<open>The \<open>switch\<close> of \<open>parse\<close>, lines 119 to 160.\<close>

definition unit_switch :: "rat \<Rightarrow> string \<Rightarrow> error + rat" where
  "unit_switch num unit =
     (if unit \<in> set [''years'', ''year'', ''yrs'', ''yr'', ''y''] then Inr (num * YEAR)
      else if unit \<in> set [''weeks'', ''week'', ''w''] then Inr (num * WEEK)
      else if unit \<in> set [''days'', ''day'', ''d''] then Inr (num * DAY)
      else if unit \<in> set [''hours'', ''hour'', ''hrs'', ''hr'', ''h''] then Inr (num * HOUR)
      else if unit \<in> set [''minutes'', ''minute'', ''mins'', ''min'', ''m'']
        then Inr (num * MINUTE)
      else if unit \<in> set [''seconds'', ''second'', ''secs'', ''sec'', ''s'']
        then Inr (num * SECOND)
      else if unit \<in> set [''milliseconds'', ''millisecond'', ''msecs'', ''msec'', ''ms'']
        then Inr num
      else Inl (UnknownUnit unit))"

text \<open>\<open>match[2] || 'ms'\<close>: an undefined group and an empty string are both falsy.\<close>

fun or_ms :: "string option \<Rightarrow> string" where
  "or_ms None = ''ms''"
| "or_ms (Some []) = ''ms''"
| "or_ms (Some u) = u"

text \<open>\<open>options.maxLength ?? 100\<close>\<close>

definition maxLength_of :: "options \<Rightarrow> number" where
  "maxLength_of opts = (case maxLength opts of None \<Rightarrow> Num 100 | Some m \<Rightarrow> m)"

definition parse :: "string \<Rightarrow> options \<Rightarrow> error + rat" where
  "parse v opts =
     (if length v = 0 then Inl EmptyInput
      else
        let maxLen = maxLength_of opts
        in if js_gt (of_nat (length v)) maxLen then Inl (TooLong maxLen)
           else
             (case pattern_exec (trim v) of
                None \<Rightarrow> Inl (InvalidFormat v)
              | Some (m1, m2) \<Rightarrow>
                  (case parseFloat m1 of
                     Num num \<Rightarrow> unit_switch num (toLowerCase (or_ms m2))
                   | _ \<Rightarrow> Inl (InvalidNumber m1))))"

definition formatShort :: "rat \<Rightarrow> string" where
  "formatShort ms =
     (let absMs = \<bar>ms\<bar>
      in if absMs \<ge> DAY then rat_to_string (Math_round (ms / DAY)) @ ''d''
         else if absMs \<ge> HOUR then rat_to_string (Math_round (ms / HOUR)) @ ''h''
         else if absMs \<ge> MINUTE then rat_to_string (Math_round (ms / MINUTE)) @ ''m''
         else if absMs \<ge> SECOND then rat_to_string (Math_round (ms / SECOND)) @ ''s''
         else rat_to_string ms @ ''ms'')"

definition plural :: "rat \<Rightarrow> rat \<Rightarrow> rat \<Rightarrow> string \<Rightarrow> string" where
  "plural ms absMs unit name =
     (let isPlural = (absMs \<ge> unit * (3 / 2))
      in rat_to_string (Math_round (ms / unit)) @ '' '' @ name @
         (if isPlural then ''s'' else ''''))"

definition formatLong :: "rat \<Rightarrow> string" where
  "formatLong ms =
     (let absMs = \<bar>ms\<bar>
      in if absMs \<ge> DAY then plural ms absMs DAY ''day''
         else if absMs \<ge> HOUR then plural ms absMs HOUR ''hour''
         else if absMs \<ge> MINUTE then plural ms absMs MINUTE ''minute''
         else if absMs \<ge> SECOND then plural ms absMs SECOND ''second''
         else rat_to_string ms @ '' ms'')"

definition format :: "number \<Rightarrow> options \<Rightarrow> error + string" where
  "format ms opts =
     (case ms of
        Num x \<Rightarrow> Inr (if long opts then formatLong x else formatShort x)
      | _ \<Rightarrow> Inl NotFinite)"

text \<open>The values the entry point can be called with, and \<open>typeof\<close>.\<close>

datatype js_value =
    VString string
  | VNumber number
  | VBoolean bool
  | VNull
  | VUndefined
  | VBigInt int
  | VSymbol
  | VObject
  | VFunction

fun typeof :: "js_value \<Rightarrow> string" where
  "typeof (VString s) = ''string''"
| "typeof (VNumber n) = ''number''"
| "typeof (VBoolean b) = ''boolean''"
| "typeof VNull = ''object''"
| "typeof VUndefined = ''undefined''"
| "typeof (VBigInt i) = ''bigint''"
| "typeof VSymbol = ''symbol''"
| "typeof VObject = ''object''"
| "typeof VFunction = ''function''"

datatype ms_result = RNumber rat | RString string

text \<open>
  An omitted options argument takes the default \<open>{}\<close> of \<open>parse\<close> and \<open>format\<close>.  The
  tests \<open>typeof value === 'string'\<close> and \<open>typeof value === 'number'\<close> are the first two
  cases of \<open>ms\<close>.
\<close>

definition or_default :: "options option \<Rightarrow> options" where
  "or_default ox = (case ox of None \<Rightarrow> no_options | Some opts \<Rightarrow> opts)"

definition ms :: "js_value \<Rightarrow> options option \<Rightarrow> error + ms_result" where
  "ms v opts =
     (case v of
        VString s \<Rightarrow> map_sum id RNumber (parse s (or_default opts))
      | VNumber n \<Rightarrow> map_sum id RString (format n (or_default opts))
      | _ \<Rightarrow> Inl UnsupportedInputType)"

section \<open>The specification's reading of the formatter\<close>

text \<open>
  The unit selection as the specification words it: the thresholds in descending order
  day, hour, minute, second, the first one that the absolute value reaches, and
  milliseconds otherwise.  These definitions follow the specification; the theorems
  below compare them with \<open>formatShort\<close> and \<open>formatLong\<close>.
\<close>

datatype out_unit = UDay | UHour | UMinute | USecond | UMillisecond

fun spec_multiplier :: "out_unit \<Rightarrow> rat" where
  "spec_multiplier UDay = 86400000"
| "spec_multiplier UHour = 3600000"
| "spec_multiplier UMinute = 60000"
| "spec_multiplier USecond = 1000"
| "spec_multiplier UMillisecond = 1"

fun spec_suffix :: "out_unit \<Rightarrow> string" where
  "spec_suffix UDay = ''d''"
| "spec_suffix UHour = ''h''"
| "spec_suffix UMinute = ''m''"
| "spec_suffix USecond = ''s''"
| "spec_suffix UMillisecond = ''ms''"

fun spec_name :: "out_unit \<Rightarrow> string" where
  "spec_name UDay = ''day''"
| "spec_name UHour = ''hour''"
| "spec_name UMinute = ''minute''"
| "spec_name USecond = ''second''"
| "spec_name UMillisecond = ''ms''"

definition spec_select :: "rat \<Rightarrow> out_unit" where
  "spec_select x =
     (if \<bar>x\<bar> \<ge> 86400000 then UDay
      else if \<bar>x\<bar> \<ge> 3600000 then UHour
      else if \<bar>x\<bar> \<ge> 60000 then UMinute
      else if \<bar>x\<bar> \<ge> 1000 then USecond
      else UMillisecond)"

definition spec_shown :: "rat \<Rightarrow> rat" where
  "spec_shown x =
     (if spec_select x = UMillisecond then x
      else Math_round (x / spec_multiplier (spec_select x)))"

definition spec_plural :: "rat \<Rightarrow> string" where
  "spec_plural x =
     (if spec_select x \<noteq> UMillisecond \<and> \<bar>x\<bar> \<ge> (3 / 2) * spec_multiplier (spec_select x)
      then ''s'' else '''')"

text \<open>\<open>parse(format(K))\<close>, both with their default options.\<close>

definition round_trip :: "rat \<Rightarrow> error + rat" where
  "round_trip k =
     (case format (Num k) no_options of
        Inl e \<Rightarrow> Inl e
      | Inr s \<Rightarrow> parse s no_options)"

section \<open>The specification's reading of the parser\<close>

text \<open>
  The character classes of the accepted grammar: what a numeric literal is made of, the
  letters of a unit token, and the space between them.
\<close>

definition is_num_char :: "char \<Rightarrow> bool" where
  "is_num_char c \<longleftrightarrow> is_digit c \<or> c = CHR ''-'' \<or> c = CHR ''.''"

definition is_letter :: "char \<Rightarrow> bool" where
  "is_letter c \<longleftrightarrow> is_upper c \<or> is_lower c"

definition is_space :: "char \<Rightarrow> bool" where
  "is_space c \<longleftrightarrow> c = CHR '' ''"

definition is_numeric_literal :: "string \<Rightarrow> bool" where
  "is_numeric_literal w =
     (let b = (if take 1 w = ''-'' then drop 1 w else w);
          ip = takeWhile is_digit b;
          r = dropWhile is_digit b
      in if r = [] then ip \<noteq> []
         else take 1 r = ''.'' \<and> drop 1 r \<noteq> [] \<and> list_all is_digit (drop 1 r))"

text \<open>
  The canonical units with their multipliers and their aliases, as the specification
  lists them; \<open>unit_aliases\<close> is the whole alias set.
\<close>

datatype canonical_unit = Millisecond | Second | Minute | Hour | Day | Week | Year

fun spec_unit_multiplier :: "canonical_unit \<Rightarrow> rat" where
  "spec_unit_multiplier Millisecond = 1"
| "spec_unit_multiplier Second = 1000"
| "spec_unit_multiplier Minute = 60000"
| "spec_unit_multiplier Hour = 3600000"
| "spec_unit_multiplier Day = 86400000"
| "spec_unit_multiplier Week = 604800000"
| "spec_unit_multiplier Year = 31557600000"

fun spec_unit_aliases :: "canonical_unit \<Rightarrow> string list" where
  "spec_unit_aliases Millisecond = [''ms'', ''msec'', ''msecs'', ''millisecond'', ''milliseconds'']"
| "spec_unit_aliases Second = [''s'', ''sec'', ''secs'', ''second'', ''seconds'']"
| "spec_unit_aliases Minute = [''m'', ''min'', ''mins'', ''minute'', ''minutes'']"
| "spec_unit_aliases Hour = [''h'', ''hr'', ''hrs'', ''hour'', ''hours'']"
| "spec_unit_aliases Day = [''d'', ''day'', ''days'']"
| "spec_unit_aliases Week = [''w'', ''week'', ''weeks'']"
| "spec_unit_aliases Year = [''y'', ''yr'', ''yrs'', ''year'', ''years'']"

definition unit_aliases :: "string list" where
  "unit_aliases =
     [''ms'', ''msec'', ''msecs'', ''millisecond'', ''milliseconds'',
      ''s'', ''sec'', ''secs'', ''second'', ''seconds'',
      ''m'', ''min'', ''mins'', ''minute'', ''minutes'',
      ''h'', ''hr'', ''hrs'', ''hour'', ''hours'',
      ''d'', ''day'', ''days'',
      ''w'', ''week'', ''weeks'',
      ''y'', ''yr'', ''yrs'', ''year'', ''years'']"

text \<open>
  A numeric literal of the grammar, from its sign, its integer digits and its fraction
  digits (the point is written when there are fraction digits), and the number it
  denotes.
\<close>

definition decimal_literal :: "bool \<Rightarrow> string \<Rightarrow> string \<Rightarrow> string" where
  "decimal_literal neg ip fp =
     (if neg then ''-'' else '''') @ ip @ (if fp = [] then '''' else ''.'' @ fp)"

definition decimal_value :: "bool \<Rightarrow> string \<Rightarrow> string \<Rightarrow> rat" where
  "decimal_value neg ip fp =
     (if neg then - 1 else 1) *
       (of_nat (digits_value ip) + of_nat (digits_value fp) / 10 ^ length fp)"

section \<open>Proof devices\<close>

text \<open>The language of a regular expression, to reason about the matcher.\<close>

fun lang :: "rx \<Rightarrow> string set" where
  "lang Eps = {[]}"
| "lang (One a) = {[d] | d. atom_ok a d}"
| "lang (Many a) = {w. list_all (atom_ok a) w}"
| "lang (Many1 a) = {w. w \<noteq> [] \<and> list_all (atom_ok a) w}"
| "lang (Opt r) = insert [] (lang r)"
| "lang (Seq p q) = {u @ v | u v. u \<in> lang p \<and> v \<in> lang q}"
| "lang (Alt p q) = lang p \<union> lang q"

text \<open>
  The pattern as a deterministic scan: the longest prefix of sign, point and digit
  characters, then the spaces, then the rest.  \<open>pattern_exec_scan\<close> below proves that
  \<open>pattern_exec\<close> computes this.
\<close>

definition scan_exec :: "string \<Rightarrow> (string \<times> string option) option" where
  "scan_exec s =
     (let a = takeWhile is_num_char s;
          r = dropWhile is_num_char s;
          u = dropWhile is_space r
      in if is_numeric_literal a \<and> (u = [] \<or> toLowerCase u \<in> set unit_aliases)
         then Some (a, if u = [] then None else Some u)
         else None)"

section \<open>Evaluation\<close>

text \<open>The overflow bound as a numeral, for evaluating \<open>to_double\<close>.\<close>

lemma double_overflow_numeral [code]:
  "double_overflow =
     179769313486231580793728971405303415079934132710037826936173778980444968292764750946649017977587207096330286416692887910946555547851940402630657488671505820681908902000708383676273854845817711531764475730270069855571366959622842914819860834936475292719074168444365510704342711559699508093042880177904174497792"
  by (simp add: double_overflow_def)

lemmas const_defs = SECOND_def MINUTE_def HOUR_def DAY_def WEEK_def YEAR_def

lemmas eval_defs =
  is_digit_def is_upper_def is_lower_def is_letter_def is_space_def toLowerCase_def to_lower_def
  decimal_value_def decimal_literal_def digits_value_def digit_val_def
  double_overflow_def maxLength_of_def no_options_def unit_aliases_def

section \<open>The formatter\<close>

lemma formatShort_spec:
  "formatShort x = rat_to_string (spec_shown x) @ spec_suffix (spec_select x)"
  by (simp add: formatShort_def spec_shown_def spec_select_def const_defs)

lemma formatLong_spec:
  "formatLong x =
     rat_to_string (spec_shown x) @ '' '' @ spec_name (spec_select x) @ spec_plural x"
  by (simp add: formatLong_def plural_def spec_shown_def spec_select_def spec_plural_def const_defs)

lemma digit_char_not_minus: "n < 10 \<Longrightarrow> digit_char n \<noteq> CHR ''-''"
  by (simp add: digit_char_def char_of_eq_iff take_bit_eq_mod)

lemma nat_to_string_hd: "\<exists>c r. nat_to_string n = c # r \<and> c \<noteq> CHR ''-''"
proof (induction n rule: nat_to_string.induct)
  case (1 n)
  show ?case
  proof (cases "n < 10")
    case True
    then show ?thesis by (simp add: nat_to_string.simps digit_char_not_minus)
  next
    case False
    with 1 obtain c r where "nat_to_string (n div 10) = c # r" "c \<noteq> CHR ''-''" by blast
    with False show ?thesis by (subst nat_to_string.simps) simp
  qed
qed

lemma rat_to_string_sign:
  "(\<exists>r. rat_to_string x @ t = CHR ''-'' # r) \<longleftrightarrow> x < 0"
proof -
  obtain c r where "nat_to_string (nat \<lfloor>\<bar>x\<bar>\<rfloor>) = c # r" "c \<noteq> CHR ''-''"
    using nat_to_string_hd by blast
  then show ?thesis by (simp add: rat_to_string_def Let_def)
qed

lemma Math_round_neg: "x \<le> - 1 \<Longrightarrow> Math_round x < 0"
  unfolding Math_round_def by (simp add: floor_less_iff)

lemma Math_round_nonneg: "0 \<le> x \<Longrightarrow> 0 \<le> Math_round x"
  unfolding Math_round_def by simp

lemma spec_shown_sign: "spec_shown x < 0 \<longleftrightarrow> x < 0"
proof (cases "spec_select x = UMillisecond")
  case True
  then show ?thesis by (simp add: spec_shown_def)
next
  case False
  define k where "k = spec_multiplier (spec_select x)"
  have k: "0 < k" "k \<le> \<bar>x\<bar>"
    using False unfolding k_def spec_select_def by (simp_all split: if_splits)
  have s: "spec_shown x = Math_round (x / k)"
    using False by (simp add: spec_shown_def k_def)
  show ?thesis
  proof (cases "x < 0")
    case True
    with k have "x / k \<le> - 1" by (simp add: field_simps)
    with True s show ?thesis using Math_round_neg by simp
  next
    case False
    with k have "0 \<le> x / k" by simp
    with False s show ?thesis using Math_round_nonneg[of "x / k"] by simp
  qed
qed

text \<open>
  C2, as amended.  For every finite \<open>x\<close>, \<open>format\<close> selects the unit by the thresholds
  day, hour, minute, second in descending order and falls back to milliseconds, so the
  unit is never a week or a year; the number shown is \<open>x\<close> divided by the unit's
  multiplier and rounded when the unit is day, hour, minute or second, and is \<open>x\<close>
  itself, not rounded, in the millisecond fallback; the output starts with a minus sign
  exactly when \<open>x\<close> is negative.
\<close>

theorem format_unit_selection:
  "format (Num x) opts =
     Inr (rat_to_string (spec_shown x) @
          (if long opts then '' '' @ spec_name (spec_select x) @ spec_plural x
           else spec_suffix (spec_select x))) \<and>
   ((\<exists>r. format (Num x) opts = Inr (CHR ''-'' # r)) \<longleftrightarrow> x < 0)"
proof -
  have e: "format (Num x) opts =
     Inr (rat_to_string (spec_shown x) @
          (if long opts then '' '' @ spec_name (spec_select x) @ spec_plural x
           else spec_suffix (spec_select x)))"
    by (simp add: format_def formatShort_spec formatLong_spec)
  show ?thesis
    unfolding e using rat_to_string_sign[of "spec_shown x"] by (simp add: spec_shown_sign)
qed

text \<open>
  C2, as the claim states it, fails in the millisecond fallback: the number shown is not
  rounded.  \<open>format(1.5)\<close> is \<open>1.5ms\<close>, where the rounded quotient would give \<open>2ms\<close>.
\<close>

theorem format_unit_selection_counterexample:
  "format (Num (3 / 2)) no_options = Inr ''1.5ms'' \<and>
   rat_to_string (Math_round ((3 / 2) / spec_multiplier (spec_select (3 / 2)))) @
     spec_suffix (spec_select (3 / 2)) = ''2ms'' \<and>
   format (Num (3 / 2)) no_options \<noteq>
     Inr (rat_to_string (Math_round ((3 / 2) / spec_multiplier (spec_select (3 / 2)))) @
          spec_suffix (spec_select (3 / 2)))"
  by code_simp

text \<open>Instances of the unit selection: a negative hour, two weeks, a negative fraction.\<close>

theorem format_unit_selection_witness:
  "format (Num (- 3600000)) no_options = Inr ''-1h'' \<and>
   format (Num 1209600000) no_options = Inr ''14d'' \<and>
   format (Num (- 1 / 2)) (no_options\<lparr>long := True\<rparr>) = Inr ''-0.5 ms''"
proof -
  have a: "rat_to_string (spec_shown (- 3600000)) @ spec_suffix (spec_select (- 3600000)) = ''-1h''"
    by code_simp
  have b: "rat_to_string (spec_shown 1209600000) @ spec_suffix (spec_select 1209600000) = ''14d''"
    by code_simp
  have c: "rat_to_string (spec_shown (- 1 / 2)) @ '' '' @ spec_name (spec_select (- 1 / 2)) @
      spec_plural (- 1 / 2) = ''-0.5 ms''"
    by code_simp
  show ?thesis
    using format_unit_selection[of "- 3600000" no_options]
      format_unit_selection[of 1209600000 no_options]
      format_unit_selection[of "- 1 / 2" "no_options\<lparr>long := True\<rparr>"] a b c
    by (simp add: no_options_def)
qed

text \<open>
  C3, as the claim states it, fails: below one second the value is rendered as it is, and
  \<open>format(0.5)\<close> is \<open>0.5ms\<close> (\<open>0.5 ms\<close> in long format), not the rounded \<open>1ms\<close>.
\<close>

theorem format_milliseconds_counterexample:
  "\<bar>1 / 2 :: rat\<bar> < 1000 \<and>
   format (Num (1 / 2)) no_options = Inr ''0.5ms'' \<and>
   format (Num (1 / 2)) (no_options\<lparr>long := True\<rparr>) = Inr ''0.5 ms'' \<and>
   rat_to_string (Math_round (1 / 2)) = ''1'' \<and>
   format (Num (1 / 2)) no_options \<noteq> Inr (rat_to_string (Math_round (1 / 2)) @ ''ms'') \<and>
   format (Num (1 / 2)) (no_options\<lparr>long := True\<rparr>) \<noteq>
     Inr (rat_to_string (Math_round (1 / 2)) @ '' ms'')"
  by code_simp

lemma Math_round_of_int: "Math_round (of_int n) = of_int n"
proof -
  have "\<lfloor>rat_of_int n + 1 / 2\<rfloor> = n" by linarith
  then show ?thesis by (simp add: Math_round_def)
qed

text \<open>
  C3, as amended.  For every finite \<open>x\<close> with \<open>|x| < 1000\<close>, \<open>format\<close> renders \<open>x\<close> itself,
  without division and without rounding: followed by \<open>ms\<close> in short format, and by a
  space and the literal \<open>ms\<close> (never a pluralized word) in long format.  The rendered
  value is the rounded one when \<open>x\<close> is an integer.
\<close>

theorem format_milliseconds:
  "\<bar>x\<bar> < 1000 \<Longrightarrow>
     format (Num x) opts =
       Inr (rat_to_string x @ (if long opts then '' ms'' else ''ms'')) \<and>
     (x \<in> \<int> \<longrightarrow> Math_round x = x)"
  by (auto simp: format_def formatShort_def formatLong_def const_defs Math_round_of_int
      elim!: Ints_cases)

text \<open>Instances below one second: an integer in short format, a fraction in long format.\<close>

theorem format_milliseconds_witness:
  "\<bar>999 :: rat\<bar> < 1000 \<and> format (Num 999) no_options = Inr ''999ms'' \<and>
   \<bar>- 5 / 4 :: rat\<bar> < 1000 \<and>
   format (Num (- 5 / 4)) (no_options\<lparr>long := True\<rparr>) = Inr ''-1.25 ms''"
proof -
  have h1: "\<bar>999 :: rat\<bar> < 1000" by simp
  have h2: "\<bar>- 5 / 4 :: rat\<bar> < 1000" by simp
  have a: "rat_to_string 999 = ''999''" by code_simp
  have b: "rat_to_string (- 5 / 4) = ''-1.25''" by code_simp
  show ?thesis
    using format_milliseconds[OF h1, of no_options]
      format_milliseconds[OF h2, of "no_options\<lparr>long := True\<rparr>"] a b h1 h2
    by (simp add: no_options_def)
qed

text \<open>
  C6.  In long format, when the selected unit is day, hour, minute or second
  (\<open>|x| \<ge> 1000\<close>), the output is the rounded quotient, a space, the unit's name, and
  an \<open>s\<close> exactly when \<open>|x|\<close> is at least 1.5 times the unit's multiplier: the test is
  on the magnitude before rounding.  \<open>1.4999 * 60000\<close> gives \<open>1 minute\<close> and
  \<open>1.5 * 60000\<close> gives \<open>2 minutes\<close>.
\<close>

theorem long_plural_boundary:
  "(\<bar>x\<bar> \<ge> 1000 \<longrightarrow>
     format (Num x) (opts\<lparr>long := True\<rparr>) =
       Inr (rat_to_string (Math_round (x / spec_multiplier (spec_select x))) @ '' '' @
            spec_name (spec_select x) @
            (if \<bar>x\<bar> \<ge> (3 / 2) * spec_multiplier (spec_select x) then ''s'' else '''')) \<and>
     ((\<exists>p. format (Num x) (opts\<lparr>long := True\<rparr>) = Inr (p @ ''s'')) \<longleftrightarrow>
        \<bar>x\<bar> \<ge> (3 / 2) * spec_multiplier (spec_select x))) \<and>
   format (Num ((14999 / 10000) * 60000)) (no_options\<lparr>long := True\<rparr>) = Inr ''1 minute'' \<and>
   format (Num ((3 / 2) * 60000)) (no_options\<lparr>long := True\<rparr>) = Inr ''2 minutes''"
proof -
  have ex: "format (Num ((14999 / 10000) * 60000)) (no_options\<lparr>long := True\<rparr>) = Inr ''1 minute'' \<and>
   format (Num ((3 / 2) * 60000)) (no_options\<lparr>long := True\<rparr>) = Inr ''2 minutes''"
    by code_simp
  have gen: "format (Num x) (opts\<lparr>long := True\<rparr>) =
       Inr (rat_to_string (Math_round (x / spec_multiplier (spec_select x))) @ '' '' @
            spec_name (spec_select x) @
            (if \<bar>x\<bar> \<ge> (3 / 2) * spec_multiplier (spec_select x) then ''s'' else ''''))"
    if "\<bar>x\<bar> \<ge> 1000"
    using that
    by (simp add: format_def formatLong_spec spec_shown_def spec_plural_def spec_select_def)
  have last: "(\<exists>p. w @ '' '' @ spec_name u @ (if b then ''s'' else '''') = p @ ''s'') \<longleftrightarrow> b"
    if "u \<noteq> UMillisecond" for w u b
  proof (cases b)
    case True
    have "w @ '' '' @ spec_name u @ ''s'' = (w @ '' '' @ spec_name u) @ ''s''" by simp
    with True show ?thesis by (metis (full_types))
  next
    case False
    have "last (w @ '' '' @ spec_name u) \<noteq> CHR ''s''"
      using that by (cases u) simp_all
    moreover have "w @ '' '' @ spec_name u \<noteq> p @ ''s''" if "last (w @ '' '' @ spec_name u) \<noteq> CHR ''s''" for p
      using that by (metis last_snoc)
    ultimately show ?thesis using False by auto
  qed
  have sel: "spec_select x \<noteq> UMillisecond" if "\<bar>x\<bar> \<ge> 1000"
    using that by (simp add: spec_select_def)
  show ?thesis
    using ex gen last[OF sel] by simp
qed

text \<open>
  An instance where the rounded number and the plural differ: \<open>-90000\<close> is 1.5 minutes in
  magnitude, rounds to \<open>-1\<close>, and is plural.
\<close>

theorem long_plural_boundary_witness:
  "\<bar>- 90000 :: rat\<bar> \<ge> 1000 \<and>
   format (Num (- 90000)) (no_options\<lparr>long := True\<rparr>) = Inr ''-1 minutes'' \<and>
   \<bar>- 90000 :: rat\<bar> \<ge> (3 / 2) * spec_multiplier (spec_select (- 90000))"
proof -
  have h: "\<bar>- 90000 :: rat\<bar> \<ge> 1000" by simp
  have a: "rat_to_string (Math_round (- 90000 / spec_multiplier (spec_select (- 90000)))) @
      '' '' @ spec_name (spec_select (- 90000)) = ''-1 minute''"
    by code_simp
  have b: "\<bar>- 90000 :: rat\<bar> \<ge> (3 / 2) * spec_multiplier (spec_select (- 90000))"
    by code_simp
  show ?thesis
    using long_plural_boundary[of "- 90000" no_options] h a b by simp
qed

text \<open>
  C10.  The unit is selected before rounding and is kept whatever the rounded number
  is: a value of at least a minute and below an hour is shown in minutes, and likewise
  for hours and seconds.  So the rounded number can be the size of the next unit:
  \<open>3599999\<close> is below an hour and formats to \<open>60m\<close>, \<open>86399999\<close> is below a day and
  formats to \<open>24h\<close>, \<open>59999\<close> is below a minute and formats to \<open>60s\<close>.
\<close>

theorem format_rounds_up_to_next_unit:
  "(MINUTE \<le> \<bar>x\<bar> \<and> \<bar>x\<bar> < HOUR \<longrightarrow>
      format (Num x) no_options = Inr (rat_to_string (Math_round (x / MINUTE)) @ ''m'')) \<and>
   (HOUR \<le> \<bar>x\<bar> \<and> \<bar>x\<bar> < DAY \<longrightarrow>
      format (Num x) no_options = Inr (rat_to_string (Math_round (x / HOUR)) @ ''h'')) \<and>
   (SECOND \<le> \<bar>x\<bar> \<and> \<bar>x\<bar> < MINUTE \<longrightarrow>
      format (Num x) no_options = Inr (rat_to_string (Math_round (x / SECOND)) @ ''s'')) \<and>
   (\<exists>y. \<bar>y\<bar> < HOUR \<and> format (Num y) no_options = Inr ''60m'') \<and>
   (\<exists>y. \<bar>y\<bar> < DAY \<and> format (Num y) no_options = Inr ''24h'') \<and>
   (\<exists>y. \<bar>y\<bar> < MINUTE \<and> format (Num y) no_options = Inr ''60s'') \<and>
   format (Num 3599999) no_options = Inr ''60m''"
proof -
  have m: "\<bar>3599999\<bar> < HOUR \<and> format (Num 3599999) no_options = Inr ''60m''"
    by code_simp
  have h: "\<bar>86399999\<bar> < DAY \<and> format (Num 86399999) no_options = Inr ''24h''"
    by code_simp
  have s: "\<bar>59999\<bar> < MINUTE \<and> format (Num 59999) no_options = Inr ''60s''"
    by code_simp
  have g1: "MINUTE \<le> \<bar>x\<bar> \<and> \<bar>x\<bar> < HOUR \<longrightarrow>
      format (Num x) no_options = Inr (rat_to_string (Math_round (x / MINUTE)) @ ''m'')"
    by (simp add: format_def no_options_def formatShort_def const_defs)
  have g2: "HOUR \<le> \<bar>x\<bar> \<and> \<bar>x\<bar> < DAY \<longrightarrow>
      format (Num x) no_options = Inr (rat_to_string (Math_round (x / HOUR)) @ ''h'')"
    by (simp add: format_def no_options_def formatShort_def const_defs)
  have g3: "SECOND \<le> \<bar>x\<bar> \<and> \<bar>x\<bar> < MINUTE \<longrightarrow>
      format (Num x) no_options = Inr (rat_to_string (Math_round (x / SECOND)) @ ''s'')"
    by (simp add: format_def no_options_def formatShort_def const_defs)
  show ?thesis using m h s g1 g2 g3 by blast
qed

text \<open>Instances at the top of the minute, hour and second ranges.\<close>

theorem format_rounds_up_to_next_unit_witness:
  "MINUTE \<le> \<bar>- 3599999\<bar> \<and> \<bar>- 3599999\<bar> < HOUR \<and>
   format (Num (- 3599999)) no_options = Inr ''-60m'' \<and>
   HOUR \<le> \<bar>86399999\<bar> \<and> \<bar>86399999\<bar> < DAY \<and>
   format (Num 86399999) no_options = Inr ''24h'' \<and>
   SECOND \<le> \<bar>59999\<bar> \<and> \<bar>59999\<bar> < MINUTE \<and>
   format (Num 59999) no_options = Inr ''60s''"
proof -
  have b1: "MINUTE \<le> \<bar>- 3599999\<bar> \<and> \<bar>- 3599999\<bar> < HOUR" by (simp add: const_defs)
  have b2: "HOUR \<le> \<bar>86399999\<bar> \<and> \<bar>86399999\<bar> < DAY" by (simp add: const_defs)
  have b3: "SECOND \<le> \<bar>59999\<bar> \<and> \<bar>59999\<bar> < MINUTE" by (simp add: const_defs)
  have r1: "rat_to_string (Math_round (- 3599999 / MINUTE)) = ''-60''" by code_simp
  have r2: "rat_to_string (Math_round (86399999 / HOUR)) = ''24''" by code_simp
  have r3: "rat_to_string (Math_round (59999 / SECOND)) = ''60''" by code_simp
  show ?thesis
    using format_rounds_up_to_next_unit[of "- 3599999"] format_rounds_up_to_next_unit[of 86399999]
      format_rounds_up_to_next_unit[of 59999] b1 b2 b3 r1 r2 r3
    by simp
qed

section \<open>The matcher and the language of the pattern\<close>

lemma many_set: "set (many a s) = {t. \<exists>w. s = w @ t \<and> list_all (atom_ok a) w}"
proof (induction s)
  case Nil
  show ?case by auto
next
  case (Cons d r)
  show ?case
  proof (cases "atom_ok a d")
    case True
    have "{t. \<exists>w. d # r = w @ t \<and> list_all (atom_ok a) w} =
          insert (d # r) {t. \<exists>w. r = w @ t \<and> list_all (atom_ok a) w}"
      using True by (auto simp: Cons_eq_append_conv)
    with True Cons show ?thesis by simp
  next
    case False
    have "{t. \<exists>w. d # r = w @ t \<and> list_all (atom_ok a) w} = {d # r}"
      using False by (auto simp: Cons_eq_append_conv)
    with False show ?thesis by simp
  qed
qed

lemma rx_run_lang: "set (rx_run r s) = {t. \<exists>w. w \<in> lang r \<and> s = w @ t}"
proof (induction r arbitrary: s)
  case Eps
  show ?case by auto
next
  case (One a)
  show ?case by (cases s) auto
next
  case (Many a)
  show ?case by (auto simp: many_set)
next
  case (Many1 a)
  show ?case
  proof (cases s)
    case Nil
    then show ?thesis by auto
  next
    case (Cons d r)
    have split: "(\<exists>w. w \<noteq> [] \<and> list_all (atom_ok a) w \<and> d # r = w @ t) \<longleftrightarrow>
        atom_ok a d \<and> (\<exists>w. r = w @ t \<and> list_all (atom_ok a) w)" for t
    proof
      assume "\<exists>w. w \<noteq> [] \<and> list_all (atom_ok a) w \<and> d # r = w @ t"
      then obtain w where w: "w \<noteq> []" "list_all (atom_ok a) w" "d # r = w @ t" by blast
      then obtain w' where "w = d # w'" by (cases w) auto
      with w show "atom_ok a d \<and> (\<exists>w. r = w @ t \<and> list_all (atom_ok a) w)" by auto
    next
      assume "atom_ok a d \<and> (\<exists>w. r = w @ t \<and> list_all (atom_ok a) w)"
      then obtain w where "atom_ok a d" "r = w @ t" "list_all (atom_ok a) w" by blast
      then have "d # w \<noteq> [] \<and> list_all (atom_ok a) (d # w) \<and> d # r = (d # w) @ t" by simp
      then show "\<exists>w. w \<noteq> [] \<and> list_all (atom_ok a) w \<and> d # r = w @ t" by blast
    qed
    show ?thesis
      using Cons by (cases "atom_ok a d") (simp_all add: many_set split)
  qed
next
  case (Opt r)
  then show ?case by auto
next
  case (Seq p q)
  show ?case
  proof (rule set_eqI)
    fix t
    have "t \<in> set (rx_run (Seq p q) s) \<longleftrightarrow> (\<exists>m. m \<in> set (rx_run p s) \<and> t \<in> set (rx_run q m))"
      by auto
    also have "\<dots> \<longleftrightarrow> (\<exists>m u v. u \<in> lang p \<and> s = u @ m \<and> v \<in> lang q \<and> m = v @ t)"
      unfolding Seq.IH by blast
    also have "\<dots> \<longleftrightarrow> (\<exists>w. w \<in> lang (Seq p q) \<and> s = w @ t)"
      by (auto; metis append.assoc)
    finally show "t \<in> set (rx_run (Seq p q) s) \<longleftrightarrow> t \<in> {t. \<exists>w. w \<in> lang (Seq p q) \<and> s = w @ t}"
      by simp
  qed
next
  case (Alt p q)
  then show ?case by auto
qed

subsection \<open>Case folding\<close>

lemma of_char_canonicalize:
  "(of_char (canonicalize d) :: nat) = (if is_lower d then of_char d - 32 else of_char d)"
proof -
  have "(of_char d :: nat) - 32 < 256"
    using nat_of_char_less_256[of d] by linarith
  then show ?thesis by (simp add: canonicalize_def)
qed

lemma of_char_to_lower:
  "(of_char (to_lower d) :: nat) = (if is_upper d then of_char d + 32 else of_char d)"
  by (simp add: to_lower_def is_upper_def)

lemma char_eq_nat: "c = d \<longleftrightarrow> (of_char c :: nat) = of_char d"
  by simp

lemma canonicalize_other:
  "\<not> is_lower c \<Longrightarrow> \<not> is_upper c \<Longrightarrow> canonicalize d = canonicalize c \<longleftrightarrow> d = c"
  unfolding char_eq_nat[of "canonicalize d"] char_eq_nat[of d] of_char_canonicalize
  by (auto simp: is_lower_def is_upper_def)

lemma fold_arith:
  "97 \<le> m \<Longrightarrow> m \<le> 122 \<Longrightarrow>
     ((if 97 \<le> n \<and> n \<le> 122 then n - 32 else n) = m - 32) \<longleftrightarrow>
     ((if 65 \<le> n \<and> n \<le> 90 then n + 32 else n) = (m::nat))"
  by (simp split: if_splits) arith

lemma canonicalize_lower:
  assumes "is_lower c"
  shows "canonicalize d = canonicalize c \<longleftrightarrow> to_lower d = c"
proof -
  have c: "(of_char (canonicalize c) :: nat) = of_char c - 32"
    using assms by (simp add: of_char_canonicalize)
  have "((of_char (canonicalize d) :: nat) = of_char c - 32) \<longleftrightarrow>
        ((of_char (to_lower d) :: nat) = of_char c)"
    unfolding of_char_canonicalize of_char_to_lower is_lower_def is_upper_def
    using assms[unfolded is_lower_def] by (intro fold_arith) auto
  then show ?thesis
    unfolding char_eq_nat[of "canonicalize d"] char_eq_nat[of "to_lower d"] c .
qed

lemma canon_minus [simp]: "canonicalize d = canonicalize CHR ''-'' \<longleftrightarrow> d = CHR ''-''"
  by (simp add: canonicalize_other is_lower_def is_upper_def)

lemma canon_dot [simp]: "canonicalize d = canonicalize CHR ''.'' \<longleftrightarrow> d = CHR ''.''"
  by (simp add: canonicalize_other is_lower_def is_upper_def)

lemma canon_space [simp]: "canonicalize d = canonicalize CHR '' '' \<longleftrightarrow> is_space d"
  by (simp add: canonicalize_other is_lower_def is_upper_def is_space_def)

lemma atom_digit_eq [simp]: "atom_ok Digit = is_digit"
  by (rule ext) simp

lemma atom_space_eq [simp]: "atom_ok (Ch CHR '' '') = is_space"
  by (rule ext) simp

lemma lang_spaces: "w \<in> lang spaces_rx \<longleftrightarrow> list_all is_space w"
  by (simp add: spaces_rx_def)

lemma lang_number:
  "w \<in> lang number_rx \<longleftrightarrow>
     (\<exists>sg ip dt fp. w = sg @ ip @ dt @ fp \<and> (sg = [] \<or> sg = ''-'') \<and> list_all is_digit ip \<and>
        (dt = [] \<or> dt = ''.'') \<and> fp \<noteq> [] \<and> list_all is_digit fp)"
  (is "?L \<longleftrightarrow> ?R")
proof
  assume ?L
  then obtain sg ip dt fp where w: "w = sg @ ip @ dt @ fp"
    and m: "sg \<in> lang (Opt (One (Ch CHR ''-'')))" "ip \<in> lang (Opt (Many1 Digit))"
      "dt \<in> lang (Opt (One (Ch CHR ''.'')))" "fp \<in> lang (Many1 Digit)"
    unfolding number_rx_def lang.simps(6) by blast
  from m have "sg = [] \<or> sg = ''-''" "list_all is_digit ip" "dt = [] \<or> dt = ''.''"
    "fp \<noteq> []" "list_all is_digit fp"
    by auto
  with w show ?R by blast
next
  assume ?R
  then obtain sg ip dt fp where d:
    "w = sg @ ip @ dt @ fp" "sg = [] \<or> sg = ''-''" "list_all is_digit ip"
    "dt = [] \<or> dt = ''.''" "fp \<noteq> []" "list_all is_digit fp"
    by blast
  have "fp \<in> lang (Many1 Digit)" using d by simp
  moreover have "dt \<in> lang (Opt (One (Ch CHR ''.'')))" using d by auto
  moreover have "ip \<in> lang (Opt (Many1 Digit))" using d by auto
  moreover have "sg \<in> lang (Opt (One (Ch CHR ''-'')))" using d by auto
  ultimately show ?L
    unfolding number_rx_def lang.simps(6) using d(1) by blast
qed

subsection \<open>The unit alternatives\<close>

lemma toLowerCase_Cons:
  "toLowerCase u = c # w \<longleftrightarrow> (\<exists>d r. u = d # r \<and> to_lower d = c \<and> toLowerCase r = w)"
  by (cases u) (auto simp: toLowerCase_def)

lemma toLowerCase_snoc:
  "toLowerCase u = w @ [c] \<longleftrightarrow> (\<exists>a d. u = a @ [d] \<and> toLowerCase a = w \<and> to_lower d = c)"
  by (cases u rule: rev_cases) (auto simp: toLowerCase_def)

lemma lang_word_lower:
  "list_all is_lower w \<Longrightarrow> u \<in> lang (word w) \<longleftrightarrow> toLowerCase u = w"
proof (induction w arbitrary: u rule: word.induct)
  case 1
  show ?case by (simp add: toLowerCase_def)
next
  case (2 c)
  then show ?case
    by (auto simp: toLowerCase_Cons canonicalize_lower toLowerCase_def)
next
  case (3 c v va)
  have "u \<in> lang (word (c # v # va)) \<longleftrightarrow>
        (\<exists>a r. u = a @ r \<and> (\<exists>d. a = [d] \<and> atom_ok (Ch c) d) \<and> r \<in> lang (word (v # va)))"
    by simp
  also have "\<dots> \<longleftrightarrow> (\<exists>d r. u = d # r \<and> atom_ok (Ch c) d \<and> r \<in> lang (word (v # va)))"
  proof
    assume "\<exists>a r. u = a @ r \<and> (\<exists>d. a = [d] \<and> atom_ok (Ch c) d) \<and> r \<in> lang (word (v # va))"
    then obtain a r d where "u = a @ r" "a = [d]" "atom_ok (Ch c) d" "r \<in> lang (word (v # va))"
      by blast
    then have "u = d # r \<and> atom_ok (Ch c) d \<and> r \<in> lang (word (v # va))" by simp
    then show "\<exists>d r. u = d # r \<and> atom_ok (Ch c) d \<and> r \<in> lang (word (v # va))" by blast
  next
    assume "\<exists>d r. u = d # r \<and> atom_ok (Ch c) d \<and> r \<in> lang (word (v # va))"
    then obtain d r where "u = d # r" "atom_ok (Ch c) d" "r \<in> lang (word (v # va))" by blast
    then have "u = [d] @ r \<and> (\<exists>e. [d] = [e] \<and> atom_ok (Ch c) e) \<and> r \<in> lang (word (v # va))"
      by simp
    then show "\<exists>a r. u = a @ r \<and> (\<exists>d. a = [d] \<and> atom_ok (Ch c) d) \<and> r \<in> lang (word (v # va))"
      by blast
  qed
  also have "\<dots> \<longleftrightarrow> (\<exists>d r. u = d # r \<and> to_lower d = c \<and> toLowerCase r = v # va)"
    using 3 by (simp add: canonicalize_lower)
  also have "\<dots> \<longleftrightarrow> toLowerCase u = c # v # va"
    by (simp add: toLowerCase_Cons[of u])
  finally show ?case .
qed

lemma lang_plural_opt:
  assumes "list_all is_lower w"
  shows "u \<in> lang (plural_opt w) \<longleftrightarrow> toLowerCase u = w \<or> toLowerCase u = w @ ''s''"
proof -
  have s: "is_lower CHR ''s''" by (simp add: is_lower_def)
  have "u \<in> lang (plural_opt w) \<longleftrightarrow>
        (\<exists>a b. u = a @ b \<and> a \<in> lang (word w) \<and> (b = [] \<or> (\<exists>d. b = [d] \<and> atom_ok (Ch CHR ''s'') d)))"
    unfolding plural_opt_def by auto
  also have "\<dots> \<longleftrightarrow>
        (\<exists>a b. u = a @ b \<and> toLowerCase a = w \<and> (b = [] \<or> (\<exists>d. b = [d] \<and> to_lower d = CHR ''s'')))"
    by (simp add: lang_word_lower[OF assms] canonicalize_lower[OF s])
  also have "\<dots> \<longleftrightarrow> toLowerCase u = w \<or> (\<exists>a d. u = a @ [d] \<and> toLowerCase a = w \<and> to_lower d = CHR ''s'')"
    by auto
  finally show ?thesis by (simp add: toLowerCase_snoc)
qed

lemma lang_unit:
  "u \<in> lang unit_rx \<longleftrightarrow> toLowerCase u \<in> set unit_aliases"
  unfolding unit_rx_def unit_aliases_def
  by (simp add: lang_plural_opt lang_word_lower is_lower_def del: word.simps) blast

subsection \<open>The numeric literal\<close>

lemma digit_not_sign: "is_digit c \<Longrightarrow> c \<noteq> CHR ''-'' \<and> c \<noteq> CHR ''.''"
  by (auto simp: is_digit_def)

lemma takeWhile_dropWhile_split:
  assumes "list_all P a" "r = [] \<or> \<not> P (hd r)"
  shows "takeWhile P (a @ r) = a" "dropWhile P (a @ r) = r"
proof -
  have a: "\<forall>x\<in>set a. P x" using assms(1) by (simp add: list_all_iff)
  have r: "takeWhile P r = []" "dropWhile P r = r"
    using assms(2) by (cases r; simp)+
  show "takeWhile P (a @ r) = a" using a r by (simp add: takeWhile_append2)
  show "dropWhile P (a @ r) = r" using a r by (simp add: dropWhile_append2)
qed

lemma numeric_literal_lang: "is_numeric_literal w \<longleftrightarrow> w \<in> lang number_rx"
proof
  assume lit: "is_numeric_literal w"
  define sg where "sg = (if take 1 w = ''-'' then ''-'' else [])"
  define b where "b = (if take 1 w = ''-'' then drop 1 w else w)"
  define ip where "ip = takeWhile is_digit b"
  define r where "r = dropWhile is_digit b"
  have w: "w = sg @ b"
  proof (cases "take 1 w = ''-''")
    case True
    then have "w = ''-'' @ drop 1 w" by (metis append_take_drop_id)
    with True show ?thesis by (simp add: sg_def b_def)
  next
    case False
    then show ?thesis by (simp add: sg_def b_def)
  qed
  have b: "b = ip @ r" by (simp add: ip_def r_def)
  have ip: "list_all is_digit ip"
    unfolding ip_def list_all_iff using set_takeWhileD by fastforce
  from lit have c: "if r = [] then ip \<noteq> []
         else take 1 r = ''.'' \<and> drop 1 r \<noteq> [] \<and> list_all is_digit (drop 1 r)"
    unfolding is_numeric_literal_def Let_def b_def ip_def r_def .
  show "w \<in> lang number_rx"
  proof (cases "r = []")
    case True
    with c w b ip have "w = sg @ [] @ [] @ ip \<and> (sg = [] \<or> sg = ''-'') \<and> list_all is_digit [] \<and>
        ([] = [] \<or> [] = ''.'') \<and> ip \<noteq> [] \<and> list_all is_digit ip"
      by (simp add: sg_def)
    then show ?thesis unfolding lang_number by blast
  next
    case False
    with c have t: "take 1 r = ''.''" and "drop 1 r \<noteq> []" "list_all is_digit (drop 1 r)"
      by simp_all
    moreover from t have "r = ''.'' @ drop 1 r" by (metis append_take_drop_id)
    ultimately have "r = ''.'' @ drop 1 r" "drop 1 r \<noteq> []" "list_all is_digit (drop 1 r)"
      by simp_all
    with w b ip have "w = sg @ ip @ ''.'' @ drop 1 r \<and> (sg = [] \<or> sg = ''-'') \<and> list_all is_digit ip \<and>
        (''.'' = [] \<or> ''.'' = ''.'') \<and> drop 1 r \<noteq> [] \<and> list_all is_digit (drop 1 r)"
      by (simp add: sg_def)
    then show ?thesis unfolding lang_number by blast
  qed
next
  assume "w \<in> lang number_rx"
  then obtain sg ip dt fp where d:
    "w = sg @ ip @ dt @ fp" "sg = [] \<or> sg = ''-''" "list_all is_digit ip"
    "dt = [] \<or> dt = ''.''" "fp \<noteq> []" "list_all is_digit fp"
    unfolding lang_number by blast
  define b where "b = ip @ dt @ fp"
  have hd_b: "hd b \<noteq> CHR ''-''" "b \<noteq> []"
    using d digit_not_sign unfolding b_def
    by (cases ip; cases dt; cases fp; fastforce)+
  have body: "(if take 1 w = ''-'' then drop 1 w else w) = b"
    using d(1,2) hd_b unfolding b_def[symmetric] by (cases b) auto
  have tail:
    "(let ip' = takeWhile is_digit b; r = dropWhile is_digit b
      in if r = [] then ip' \<noteq> []
         else take 1 r = ''.'' \<and> drop 1 r \<noteq> [] \<and> list_all is_digit (drop 1 r))"
  proof (cases "dt = []")
    case True
    then have "list_all is_digit b" "b \<noteq> []" using d by (simp_all add: b_def)
    then have tw: "takeWhile is_digit b = b" "dropWhile is_digit b = []"
      by (simp_all add: list_all_iff)
    show ?thesis unfolding Let_def tw using \<open>b \<noteq> []\<close> by simp
  next
    case False
    with d have dt: "dt = ''.''" by simp
    have "\<not> is_digit (hd (dt @ fp))" using dt digit_not_sign by auto
    then have tw: "takeWhile is_digit b = ip" "dropWhile is_digit b = dt @ fp"
      unfolding b_def using takeWhile_dropWhile_split[of is_digit ip "dt @ fp"] d(3) by simp_all
    show ?thesis unfolding Let_def tw using d dt by simp
  qed
  show "is_numeric_literal w"
    unfolding is_numeric_literal_def body using tail by (simp add: Let_def)
qed

lemma number_chars:
  assumes "w \<in> lang number_rx"
  shows "w \<noteq> []" "list_all is_num_char w"
proof -
  from assms obtain sg ip dt fp where d:
    "w = sg @ ip @ dt @ fp" "sg = [] \<or> sg = ''-''" "list_all is_digit ip"
    "dt = [] \<or> dt = ''.''" "fp \<noteq> []" "list_all is_digit fp"
    unfolding lang_number by blast
  show "w \<noteq> []" using d by simp
  have "list_all is_num_char ip" "list_all is_num_char fp"
    using d(3,6) by (auto simp: list_all_iff is_num_char_def)
  moreover have "list_all is_num_char sg" "list_all is_num_char dt"
    using d(2,4) by (auto simp: is_num_char_def)
  ultimately show "list_all is_num_char w" using d(1) by simp
qed

lemma lower_letter: "is_lower (to_lower d) \<Longrightarrow> is_letter d"
  by (auto simp: to_lower_def is_letter_def split: if_splits)

lemma aliases_lower: "w \<in> set unit_aliases \<Longrightarrow> w \<noteq> [] \<and> list_all is_lower w"
  unfolding unit_aliases_def by (auto simp: is_lower_def)

lemma unit_chars:
  assumes "u \<in> lang unit_rx"
  shows "u \<noteq> []" "list_all is_letter u"
proof -
  have a: "toLowerCase u \<noteq> [] \<and> list_all is_lower (toLowerCase u)"
    using assms aliases_lower by (simp add: lang_unit)
  then show "u \<noteq> []" by (auto simp: toLowerCase_def)
  from a show "list_all is_letter u"
    by (auto simp: toLowerCase_def list_all_iff lower_letter)
qed

subsection \<open>The whole pattern is a scan\<close>

lemma consumed_append [simp]: "consumed (a @ t) t = a"
  by (simp add: consumed_def)

lemma consumed_Nil [simp]: "consumed t [] = t"
  by (simp add: consumed_def)

lemma pattern_matches_set:
  "m \<in> set (pattern_matches s) \<longleftrightarrow>
     (\<exists>a sp u. s = a @ sp @ u \<and> a \<in> lang number_rx \<and> list_all is_space sp \<and>
        ((u \<in> lang unit_rx \<and> m = (a, Some u)) \<or> (u = [] \<and> m = (a, None))))"
  (is "?L \<longleftrightarrow> ?R")
proof
  assume ?L
  then obtain t1 t2 where t1: "t1 \<in> set (rx_run number_rx s)"
    and t2: "t2 \<in> set (rx_run spaces_rx t1)"
    and m: "([] \<in> set (rx_run unit_rx t2) \<and> m = (consumed s t1, Some (consumed t2 [])))
          \<or> (t2 = [] \<and> m = (consumed s t1, None))"
    unfolding pattern_matches_def by (auto split: if_splits)
  from t1 obtain a where a: "a \<in> lang number_rx" "s = a @ t1"
    unfolding rx_run_lang by blast
  from t2 obtain sp where sp: "list_all is_space sp" "t1 = sp @ t2"
    unfolding rx_run_lang lang_spaces[symmetric] by blast
  from m have "(t2 \<in> lang unit_rx \<and> m = (a, Some t2)) \<or> (t2 = [] \<and> m = (a, None))"
    unfolding rx_run_lang using a(2) by auto
  with a sp show ?R by blast
next
  assume ?R
  then obtain a sp u where d: "s = a @ sp @ u" "a \<in> lang number_rx" "list_all is_space sp"
    and m: "(u \<in> lang unit_rx \<and> m = (a, Some u)) \<or> (u = [] \<and> m = (a, None))"
    by blast
  have t1: "sp @ u \<in> set (rx_run number_rx s)"
    unfolding rx_run_lang using d by blast
  have t2: "u \<in> set (rx_run spaces_rx (sp @ u))"
    unfolding rx_run_lang using d(3) lang_spaces by blast
  have c: "consumed s (sp @ u) = a" using d(1) by simp
  from m show ?L
  proof
    assume u: "u \<in> lang unit_rx \<and> m = (a, Some u)"
    then have "[] \<in> set (rx_run unit_rx u)" unfolding rx_run_lang by simp
    then have "(consumed s (sp @ u), Some (consumed u [])) \<in>
        set (map (\<lambda>t3. (consumed s (sp @ u), Some (consumed u t3)))
               (filter (\<lambda>t3. t3 = []) (rx_run unit_rx u)))"
      by force
    with t1 t2 u c show ?L
      unfolding pattern_matches_def by (simp del: consumed_append) blast
  next
    assume u: "u = [] \<and> m = (a, None)"
    with t1 t2 c show ?L
      unfolding pattern_matches_def by (simp del: consumed_append) blast
  qed
qed

lemma space_not_num: "is_space c \<Longrightarrow> \<not> is_num_char c"
  by (auto simp: is_space_def is_num_char_def is_digit_def)

lemma letter_not_num: "is_letter c \<Longrightarrow> \<not> is_num_char c"
  by (auto simp: is_letter_def is_num_char_def is_digit_def is_upper_def is_lower_def)

lemma letter_not_space: "is_letter c \<Longrightarrow> \<not> is_space c"
  by (auto simp: is_letter_def is_space_def is_upper_def is_lower_def)

lemma split_unique:
  assumes "list_all is_num_char a" "list_all is_space sp" "list_all is_letter u"
  shows "takeWhile is_num_char (a @ sp @ u) = a"
    and "dropWhile is_space (dropWhile is_num_char (a @ sp @ u)) = u"
proof -
  have h: "sp @ u = [] \<or> \<not> is_num_char (hd (sp @ u))"
    using assms(2,3) space_not_num letter_not_num by (cases sp; cases u) auto
  have k: "u = [] \<or> \<not> is_space (hd u)"
    using assms(3) letter_not_space by (cases u) auto
  show "takeWhile is_num_char (a @ sp @ u) = a"
    using takeWhile_dropWhile_split(1)[OF assms(1) h] .
  have "dropWhile is_num_char (a @ sp @ u) = sp @ u"
    using takeWhile_dropWhile_split(2)[OF assms(1) h] .
  then show "dropWhile is_space (dropWhile is_num_char (a @ sp @ u)) = u"
    using takeWhile_dropWhile_split(2)[OF assms(2) k] by simp
qed

lemma matches_only:
  assumes "m \<in> set (pattern_matches s)"
  shows "m = (takeWhile is_num_char s, if dropWhile is_space (dropWhile is_num_char s) = [] then None else Some (dropWhile is_space (dropWhile is_num_char s))) \<and> takeWhile is_num_char s \<in> lang number_rx \<and>
      (dropWhile is_space (dropWhile is_num_char s) = [] \<or> dropWhile is_space (dropWhile is_num_char s) \<in> lang unit_rx)"
proof -
  from assms obtain a' sp' u' where d: "s = a' @ sp' @ u'" "a' \<in> lang number_rx"
      "list_all is_space sp'"
      and m: "(u' \<in> lang unit_rx \<and> m = (a', Some u')) \<or> (u' = [] \<and> m = (a', None))"
      unfolding pattern_matches_set by blast
  have l: "list_all is_letter u'" using m unit_chars(2) by auto
  have "takeWhile is_num_char s = a'" "dropWhile is_space (dropWhile is_num_char s) = u'"
      unfolding d(1) using split_unique[OF number_chars(2)[OF d(2)] d(3) l] .
  with d m unit_chars(1) show ?thesis by auto
qed

lemma scan_exec_lang:
  "scan_exec s =
     (if takeWhile is_num_char s \<in> lang number_rx \<and>
         (dropWhile is_space (dropWhile is_num_char s) = [] \<or>
          dropWhile is_space (dropWhile is_num_char s) \<in> lang unit_rx)
      then Some (takeWhile is_num_char s,
                 if dropWhile is_space (dropWhile is_num_char s) = [] then None
                 else Some (dropWhile is_space (dropWhile is_num_char s)))
      else None)"
  by (simp only: scan_exec_def Let_def numeric_literal_lang lang_unit)

lemma pattern_matches_scan:
  "set (pattern_matches s) = (case scan_exec s of None \<Rightarrow> {} | Some m \<Rightarrow> {m})"
proof -
  define a where "a = takeWhile is_num_char s"
  define r where "r = dropWhile is_num_char s"
  define sp where "sp = takeWhile is_space r"
  define u where "u = dropWhile is_space r"
  have s: "s = a @ sp @ u" by (simp add: a_def r_def sp_def u_def)
  have sp: "list_all is_space sp"
    unfolding sp_def list_all_iff using set_takeWhileD by fastforce
  have only: "m = (a, if u = [] then None else Some u)" if "m \<in> set (pattern_matches s)" for m
    using matches_only[OF that] by (simp add: a_def u_def r_def)
  have some: "a \<in> lang number_rx \<and> (u = [] \<or> u \<in> lang unit_rx)"
    if "m \<in> set (pattern_matches s)" for m
    using matches_only[OF that] by (simp add: a_def u_def r_def)
  have se: "scan_exec s =
     (if a \<in> lang number_rx \<and> (u = [] \<or> u \<in> lang unit_rx)
      then Some (a, if u = [] then None else Some u) else None)"
    unfolding a_def u_def r_def by (rule scan_exec_lang)
  show ?thesis
  proof (cases "a \<in> lang number_rx \<and> (u = [] \<or> u \<in> lang unit_rx)")
    case True
    have "\<exists>a' sp' u'. s = a' @ sp' @ u' \<and> a' \<in> lang number_rx \<and> list_all is_space sp' \<and>
        ((u' \<in> lang unit_rx \<and> (a, if u = [] then None else Some u) = (a', Some u')) \<or>
         (u' = [] \<and> (a, if u = [] then None else Some u) = (a', None)))"
      using s sp True unit_chars(1)[of u]
      by (intro exI[of _ a] exI[of _ sp] exI[of _ u]) auto
    then have "(a, if u = [] then None else Some u) \<in> set (pattern_matches s)"
      unfolding pattern_matches_set .
    moreover have "set (pattern_matches s) \<subseteq> {(a, if u = [] then None else Some u)}"
    proof
      fix m assume "m \<in> set (pattern_matches s)"
      then have "m = (a, if u = [] then None else Some u)" by (rule only)
      then show "m \<in> {(a, if u = [] then None else Some u)}" by (simp only: singleton_iff)
    qed
    ultimately have "set (pattern_matches s) = {(a, if u = [] then None else Some u)}"
      by blast
    with True show ?thesis unfolding se by simp
  next
    case False
    have "set (pattern_matches s) = {}"
    proof (cases "pattern_matches s")
      case Nil
      then show ?thesis by simp
    next
      case (Cons x xs)
      then have "x \<in> set (pattern_matches s)" by simp
      from some[OF this] False show ?thesis by simp
    qed
    with False show ?thesis unfolding se by simp
  qed
qed

lemma pattern_exec_scan: "pattern_exec s = scan_exec s"
proof (cases "scan_exec s")
  case None
  then have "pattern_matches s = []" using pattern_matches_scan[of s] by simp
  with None show ?thesis by (simp add: pattern_exec_def)
next
  case (Some m)
  then have e: "set (pattern_matches s) = {m}" using pattern_matches_scan[of s] by simp
  then obtain x xs where l: "pattern_matches s = x # xs" by (cases "pattern_matches s") auto
  with e have "x = m" by auto
  with l Some show ?thesis by (simp add: pattern_exec_def)
qed

section \<open>The parser\<close>

lemma parse_scan:
  "parse v opts =
     (if v = [] then Inl EmptyInput
      else if js_gt (of_nat (length v)) (maxLength_of opts) then Inl (TooLong (maxLength_of opts))
      else (case scan_exec (trim v) of
              None \<Rightarrow> Inl (InvalidFormat v)
            | Some (m1, m2) \<Rightarrow>
                (case parseFloat m1 of
                   Num num \<Rightarrow> unit_switch num (toLowerCase (or_ms m2))
                 | _ \<Rightarrow> Inl (InvalidNumber m1))))"
  by (simp add: parse_def pattern_exec_scan Let_def)

lemma trim_core:
  assumes "a \<noteq> []" "\<not> is_white_space (hd a)" "\<not> is_white_space (last a)"
    and "list_all is_white_space l" "list_all is_white_space r"
  shows "trim (l @ a @ r) = a"
proof -
  have 1: "dropWhile is_white_space (l @ a @ r) = a @ r"
    using takeWhile_dropWhile_split(2)[of is_white_space l "a @ r"] assms by simp
  have "rev (a @ r) = rev r @ rev a" by simp
  moreover have "list_all is_white_space (rev r)" using assms(5) by (simp add: list_all_iff)
  moreover have "rev a = [] \<or> \<not> is_white_space (hd (rev a))"
    using assms(1,3) by (simp add: hd_rev)
  ultimately have "dropWhile is_white_space (rev (a @ r)) = rev a"
    using takeWhile_dropWhile_split(2)[of is_white_space "rev r" "rev a"] by simp
  with 1 show ?thesis by (simp add: trim_def)
qed

lemma trim_id:
  "a \<noteq> [] \<Longrightarrow> \<not> is_white_space (hd a) \<Longrightarrow> \<not> is_white_space (last a) \<Longrightarrow> trim a = a"
  using trim_core[of a "[]" "[]"] by simp

lemma num_not_white: "is_num_char c \<Longrightarrow> \<not> is_white_space c"
  by (auto simp: is_num_char_def is_white_space_def is_digit_def)

lemma letter_not_white: "is_letter c \<Longrightarrow> \<not> is_white_space c"
  by (auto simp: is_letter_def is_white_space_def is_upper_def is_lower_def)

lemma space_white: "is_space c \<Longrightarrow> is_white_space c"
  by (auto simp: is_space_def is_white_space_def)

lemma literal_lang:
  assumes "list_all is_digit ip" "list_all is_digit fp" "ip \<noteq> [] \<or> fp \<noteq> []"
  shows "decimal_literal neg ip fp \<in> lang number_rx"
proof (cases "fp = []")
  case True
  with assms have "decimal_literal neg ip fp = (if neg then ''-'' else []) @ [] @ [] @ ip \<and>
      ((if neg then ''-'' else []) = [] \<or> (if neg then ''-'' else []) = ''-'') \<and>
      list_all is_digit [] \<and> ([] = [] \<or> [] = ''.'') \<and> ip \<noteq> [] \<and> list_all is_digit ip"
    by (simp add: decimal_literal_def)
  then show ?thesis unfolding lang_number by blast
next
  case False
  with assms have "decimal_literal neg ip fp = (if neg then ''-'' else []) @ ip @ ''.'' @ fp \<and>
      ((if neg then ''-'' else []) = [] \<or> (if neg then ''-'' else []) = ''-'') \<and>
      list_all is_digit ip \<and> (''.'' = [] \<or> ''.'' = ''.'') \<and> fp \<noteq> [] \<and> list_all is_digit fp"
    by (simp add: decimal_literal_def)
  then show ?thesis unfolding lang_number by blast
qed

lemma lang_number_literal:
  assumes "w \<in> lang number_rx"
  shows "\<exists>neg ip fp. w = decimal_literal neg ip fp \<and> list_all is_digit ip \<and>
           list_all is_digit fp \<and> (ip \<noteq> [] \<or> fp \<noteq> [])"
proof -
  from assms obtain sg ip dt fp where d:
    "w = sg @ ip @ dt @ fp" "sg = [] \<or> sg = ''-''" "list_all is_digit ip"
    "dt = [] \<or> dt = ''.''" "fp \<noteq> []" "list_all is_digit fp"
    unfolding lang_number by blast
  show ?thesis
  proof (cases "dt = []")
    case True
    with d have "w = decimal_literal (sg = ''-'') (ip @ fp) [] \<and> list_all is_digit (ip @ fp) \<and>
        list_all is_digit [] \<and> (ip @ fp \<noteq> [] \<or> [] \<noteq> ([]::string))"
      by (auto simp: decimal_literal_def)
    then show ?thesis by blast
  next
    case False
    with d have "w = decimal_literal (sg = ''-'') ip fp \<and> list_all is_digit ip \<and>
        list_all is_digit fp \<and> (ip \<noteq> [] \<or> fp \<noteq> [])"
      by (auto simp: decimal_literal_def)
    then show ?thesis by blast
  qed
qed

lemma scan_exec_split:
  assumes "a \<in> lang number_rx" "list_all is_space sp" "list_all is_letter u"
  shows "scan_exec (a @ sp @ u) =
     (if u = [] \<or> toLowerCase u \<in> set unit_aliases
      then Some (a, if u = [] then None else Some u) else None)"
  unfolding scan_exec_lang split_unique[OF number_chars(2)[OF assms(1)] assms(2,3)]
  using assms(1) by (simp add: lang_unit)

lemma parseFloat_literal:
  assumes "list_all is_digit ip" "list_all is_digit fp" "ip \<noteq> [] \<or> fp \<noteq> []"
  shows "parseFloat (decimal_literal neg ip fp) = to_double (decimal_value neg ip fp)"
proof -
  define frac where "frac = (if fp = [] then '''' else ''.'' @ fp)"
  define body where "body = ip @ frac"
  have body_ne: "body \<noteq> []" "hd body \<noteq> CHR ''-''"
    using assms digit_not_sign unfolding body_def frac_def
    by (cases ip; cases fp; fastforce)+
  have neg: "take 1 (decimal_literal neg ip fp) = ''-'' \<longleftrightarrow> neg"
    using body_ne unfolding decimal_literal_def frac_def[symmetric] body_def[symmetric]
    by (cases body) auto
  have b: "(if neg then drop 1 (decimal_literal neg ip fp) else decimal_literal neg ip fp) = body"
    unfolding decimal_literal_def frac_def[symmetric] body_def[symmetric] by simp
  have fr: "frac = [] \<or> \<not> is_digit (hd frac)"
    unfolding frac_def using digit_not_sign by auto
  have tw: "takeWhile is_digit body = ip" "dropWhile is_digit body = frac"
    unfolding body_def using takeWhile_dropWhile_split[OF assms(1) fr] by simp_all
  have fp: "(if take 1 frac = ''.'' then takeWhile is_digit (drop 1 frac) else []) = fp"
    using assms(2) unfolding frac_def by (simp add: list_all_iff)
  show ?thesis
    unfolding parseFloat_def Let_def neg b tw fp decimal_value_def
    using assms(3) by auto
qed

lemma unit_switch_alias:
  "w \<in> set (spec_unit_aliases cu) \<Longrightarrow> unit_switch x w = Inr (x * spec_unit_multiplier cu)"
  by (cases cu; simp; elim disjE; simp add: unit_switch_def const_defs)

lemma unit_aliases_concat:
  "unit_aliases =
     concat (map spec_unit_aliases [Millisecond, Second, Minute, Hour, Day, Week, Year])"
  by (simp add: unit_aliases_def)

lemma spec_aliases_all:
  "w \<in> set unit_aliases \<longleftrightarrow> (\<exists>cu. w \<in> set (spec_unit_aliases cu))"
proof -
  have "cu \<in> set [Millisecond, Second, Minute, Hour, Day, Week, Year]" for cu
    by (cases cu) simp_all
  then show ?thesis
    unfolding unit_aliases_concat set_concat set_map by blast
qed

lemma literal_ends:
  assumes "list_all is_digit ip" "list_all is_digit fp" "ip \<noteq> [] \<or> fp \<noteq> []"
  shows "decimal_literal neg ip fp \<noteq> []"
    and "\<not> is_white_space (hd (decimal_literal neg ip fp))"
    and "\<not> is_white_space (last (decimal_literal neg ip fp))"
proof -
  let ?l = "decimal_literal neg ip fp"
  have l: "?l \<in> lang number_rx" using literal_lang[OF assms] .
  show ne: "?l \<noteq> []" using number_chars(1)[OF l] .
  have "list_all is_num_char ?l" using number_chars(2)[OF l] .
  then have all: "\<forall>c\<in>set ?l. \<not> is_white_space c"
    using num_not_white by (auto simp: list_all_iff)
  show "\<not> is_white_space (hd ?l)" using all ne by simp
  show "\<not> is_white_space (last ?l)" using all ne by simp
qed

lemma or_ms_nonempty: "u \<noteq> [] \<Longrightarrow> or_ms (Some u) = u"
  by (cases u) simp_all

lemma toLowerCase_ms: "toLowerCase ''ms'' = ''ms''"
  by (simp add: toLowerCase_def to_lower_def is_upper_def)

lemma scan_exec_Some:
  assumes "scan_exec t = Some (m1, m2)"
  shows "toLowerCase (or_ms m2) \<in> set unit_aliases"
proof -
  define u where "u = dropWhile is_space (dropWhile is_num_char t)"
  from assms have c: "u = [] \<or> toLowerCase u \<in> set unit_aliases"
    and m2: "m2 = (if u = [] then None else Some u)"
    unfolding scan_exec_def Let_def u_def by (auto split: if_splits)
  show ?thesis
  proof (cases "u = []")
    case True
    with m2 show ?thesis by (simp add: toLowerCase_ms unit_aliases_def)
  next
    case False
    with m2 c show ?thesis by (simp add: or_ms_nonempty)
  qed
qed

lemma unit_switch_known:
  assumes "w \<in> set unit_aliases"
  shows "\<exists>cu. w \<in> set (spec_unit_aliases cu) \<and> unit_switch x w = Inr (x * spec_unit_multiplier cu)"
  using assms unit_switch_alias unfolding spec_aliases_all by blast

lemma scan_exec_accepts:
  "scan_exec t \<noteq> None \<longleftrightarrow>
     (\<exists>neg ip fp sp u. t = decimal_literal neg ip fp @ sp @ u \<and>
        list_all is_digit ip \<and> list_all is_digit fp \<and> (ip \<noteq> [] \<or> fp \<noteq> []) \<and>
        list_all is_space sp \<and> (u = [] \<or> toLowerCase u \<in> set unit_aliases))"
  (is "?L \<longleftrightarrow> ?R")
proof
  assume ?L
  define a where "a = takeWhile is_num_char t"
  define r where "r = dropWhile is_num_char t"
  define sp where "sp = takeWhile is_space r"
  define u where "u = dropWhile is_space r"
  have t: "t = a @ sp @ u" by (simp add: a_def r_def sp_def u_def)
  have sp: "list_all is_space sp"
    unfolding sp_def list_all_iff using set_takeWhileD by fastforce
  from \<open>?L\<close> have c: "a \<in> lang number_rx" "u = [] \<or> toLowerCase u \<in> set unit_aliases"
    unfolding scan_exec_def Let_def a_def u_def r_def numeric_literal_lang
    by (auto split: if_splits)
  from lang_number_literal[OF c(1)] obtain neg ip fp where
    "a = decimal_literal neg ip fp" "list_all is_digit ip" "list_all is_digit fp"
    "ip \<noteq> [] \<or> fp \<noteq> []"
    by blast
  with t sp c(2) show ?R by blast
next
  assume ?R
  then obtain neg ip fp sp u where d: "t = decimal_literal neg ip fp @ sp @ u"
    "list_all is_digit ip" "list_all is_digit fp" "ip \<noteq> [] \<or> fp \<noteq> []"
    "list_all is_space sp" "u = [] \<or> toLowerCase u \<in> set unit_aliases"
    by blast
  have l: "decimal_literal neg ip fp \<in> lang number_rx"
    using literal_lang[OF d(2,3,4)] .
  have u: "list_all is_letter u"
    using d(6) unit_chars(2)[of u] by (auto simp: lang_unit)
  show ?L
    unfolding d(1) scan_exec_split[OF l d(5) u] using d(6) by simp
qed

lemma parse_literal:
  assumes "list_all is_digit ip" "list_all is_digit fp" "ip \<noteq> [] \<or> fp \<noteq> []"
    and "list_all is_space sp" "list_all is_letter u"
    and "\<not> js_gt (of_nat (length (decimal_literal neg ip fp @ sp @ u))) (maxLength_of opts)"
  shows "parse (decimal_literal neg ip fp @ sp @ u) opts =
     (if u = [] \<or> toLowerCase u \<in> set unit_aliases
      then (case to_double (decimal_value neg ip fp) of
              Num x \<Rightarrow> unit_switch x (toLowerCase (if u = [] then ''ms'' else u))
            | _ \<Rightarrow> Inl (InvalidNumber (decimal_literal neg ip fp)))
      else Inl (InvalidFormat (decimal_literal neg ip fp @ sp @ u)))"
proof -
  let ?lit = "decimal_literal neg ip fp"
  let ?v = "?lit @ sp @ u"
  note e = literal_ends[OF assms(1,2,3), of neg]
  have l: "?lit \<in> lang number_rx" using literal_lang[OF assms(1,2,3)] .
  have ne: "?v \<noteq> []" using e(1) by simp
  obtain sp' where tr: "trim ?v = ?lit @ sp' @ u" and sp': "list_all is_space sp'"
  proof (cases "u = []")
    case True
    have "list_all is_white_space sp"
      using assms(4) space_white by (auto simp: list_all_iff)
    then have "trim ([] @ ?lit @ sp) = ?lit"
      using e by (intro trim_core) simp_all
    with True have "trim ?v = ?lit @ [] @ u" by simp
    then show ?thesis using that[of "[]"] by simp
  next
    case False
    have "\<not> is_white_space (hd ?v)" using e by simp
    moreover have "\<not> is_white_space (last ?v)"
      using False assms(5) letter_not_white by (simp add: list_all_iff)
    ultimately have "trim ?v = ?v" using ne by (intro trim_id)
    then show ?thesis using that[of sp] assms(4) by simp
  qed
  have sc: "scan_exec (trim ?v) =
     (if u = [] \<or> toLowerCase u \<in> set unit_aliases
      then Some (?lit, if u = [] then None else Some u) else None)"
    unfolding tr using scan_exec_split[OF l sp' assms(5)] .
  have om: "or_ms (if u = [] then None else Some u) = (if u = [] then ''ms'' else u)"
    by (simp add: or_ms_nonempty)
  show ?thesis
    unfolding parse_scan sc using ne assms(6)
    by (cases "u = []"; cases "to_double (decimal_value neg ip fp)")
       (simp_all add: parseFloat_literal[OF assms(1,2,3)] or_ms_nonempty del: append_is_Nil_conv)
qed



lemma unit_switch_not_unknown:
  "w \<in> set unit_aliases \<Longrightarrow> unit_switch x w \<noteq> Inl e"
  using unit_switch_known[of w x] by auto

lemma parse_never_unknown_unit: "parse v opts \<noteq> Inl (UnknownUnit t)"
proof (cases "scan_exec (trim v)")
  case None
  then show ?thesis by (simp add: parse_scan)
next
  case (Some m)
  obtain m1 m2 where m: "m = (m1, m2)" by (cases m)
  have "unit_switch x (toLowerCase (or_ms m2)) \<noteq> Inl (UnknownUnit t)" for x
    using unit_switch_not_unknown[OF scan_exec_Some[OF Some[unfolded m]]] .
  then show ?thesis
    unfolding parse_scan Some m by (simp split: number.splits)
qed

lemma parse_invalid_format_iff:
  assumes "v \<noteq> []" "\<not> js_gt (of_nat (length v)) (maxLength_of opts)"
  shows "parse v opts = Inl (InvalidFormat e) \<longleftrightarrow> scan_exec (trim v) = None \<and> e = v"
proof (cases "scan_exec (trim v)")
  case None
  with assms show ?thesis by (auto simp: parse_scan)
next
  case (Some m)
  obtain m1 m2 where m: "m = (m1, m2)" by (cases m)
  have "unit_switch x (toLowerCase (or_ms m2)) \<noteq> Inl (InvalidFormat e)" for x
    using unit_switch_not_unknown[OF scan_exec_Some[OF Some[unfolded m]]] .
  then show ?thesis
    unfolding parse_scan Some m using assms by (simp split: number.splits)
qed

lemma parse_too_long_iff:
  assumes "v \<noteq> []"
  shows "parse v opts = Inl (TooLong m) \<longleftrightarrow>
           js_gt (of_nat (length v)) (maxLength_of opts) \<and> m = maxLength_of opts"
proof (cases "js_gt (of_nat (length v)) (maxLength_of opts)")
  case True
  with assms show ?thesis by (auto simp: parse_scan)
next
  case False
  show ?thesis
  proof (cases "scan_exec (trim v)")
    case None
    with assms False show ?thesis by (simp add: parse_scan)
  next
    case (Some p)
    obtain m1 m2 where p: "p = (m1, m2)" by (cases p)
    have "unit_switch x (toLowerCase (or_ms m2)) \<noteq> Inl (TooLong m)" for x
      using unit_switch_not_unknown[OF scan_exec_Some[OF Some[unfolded p]]] .
    then show ?thesis
      unfolding parse_scan Some p using assms False by (simp split: number.splits)
  qed
qed

section \<open>The claims about the parser\<close>

subsection \<open>Magnitude times multiplier\<close>




subsection \<open>Unknown unit tokens\<close>

text \<open>
  C4, as amended.  A numeric literal, an optional space and a non-empty alphabetic token
  that is not an alias, within the length limit, fails with \<open>InvalidFormat\<close> carrying
  the input: the pattern admits only the aliases as unit token.  No input at all fails
  with \<open>UnknownUnit\<close>.
\<close>

theorem unknown_unit_is_invalid_format:
  assumes "list_all is_digit ip" "list_all is_digit fp" "ip \<noteq> [] \<or> fp \<noteq> []"
    and "sep = [] \<or> sep = '' ''"
    and "tok \<noteq> []" "list_all is_letter tok" "toLowerCase tok \<notin> set unit_aliases"
    and "\<not> js_gt (of_nat (length (decimal_literal neg ip fp @ sep @ tok))) (maxLength_of opts)"
  shows "parse (decimal_literal neg ip fp @ sep @ tok) opts =
           Inl (InvalidFormat (decimal_literal neg ip fp @ sep @ tok)) \<and>
         parse v opts' \<noteq> Inl (UnknownUnit t)"
proof -
  have sep: "list_all is_space sep" using assms(4) by (auto simp: is_space_def)
  show ?thesis
    unfolding parse_literal[OF assms(1,2,3) sep assms(6,8)]
    using assms(5,7) parse_never_unknown_unit by simp
qed

text \<open>
  C4, as the claim states it, fails: \<open>5 foo\<close> is rejected by the pattern, with
  \<open>InvalidFormat\<close>, and not by the unit resolution.
\<close>

theorem unknown_unit_counterexample:
  "parse ''5 foo'' no_options = Inl (InvalidFormat ''5 foo'') \<and>
   parse ''5 foo'' no_options \<noteq> Inl (UnknownUnit ''foo'')"
  by code_simp

text \<open>Instances: \<open>5 foo\<close>, and \<open>1x\<close> of the test suite.\<close>

theorem unknown_unit_is_invalid_format_witness:
  "parse ''5 foo'' no_options = Inl (InvalidFormat ''5 foo'') \<and>
   parse ''1x'' no_options = Inl (InvalidFormat ''1x'') \<and>
   parse ''5 foo'' no_options \<noteq> Inl (UnknownUnit ''foo'')"
proof -
  have 1: "parse ''5 foo'' no_options = Inl (InvalidFormat ''5 foo'') \<and>
      parse ''5 foo'' no_options \<noteq> Inl (UnknownUnit ''foo'')"
    using unknown_unit_is_invalid_format[where ip="''5''" and fp="[]" and sep="'' ''"
        and tok="''foo''" and neg=False and opts=no_options and v="''5 foo''"
        and opts'=no_options and t="''foo''"]
    by (simp add: eval_defs)
  have 2: "parse ''1x'' no_options = Inl (InvalidFormat ''1x'')"
    using unknown_unit_is_invalid_format[where ip="''1''" and fp="[]" and sep="[]"
        and tok="''x''" and neg=False and opts=no_options and v="''1x''"
        and opts'=no_options and t="''x''"]
    by (simp add: eval_defs)
  show ?thesis using 1 2 by simp
qed

subsection \<open>The accepted inputs\<close>

text \<open>
  C5, as amended.  For a non-empty input within the length limit, \<open>parse\<close> fails with
  \<open>InvalidFormat\<close> exactly when the trimmed input is not a numeric literal (an optional
  minus sign, digits, an optional fraction), followed by any number of spaces, followed
  by nothing or by an alias in any mix of cases; the error carries the input as given,
  not trimmed.
\<close>

theorem parse_accepts_exactly:
  assumes "v \<noteq> []" "\<not> js_gt (of_nat (length v)) (maxLength_of opts)"
  shows "((\<exists>e. parse v opts = Inl (InvalidFormat e)) \<longleftrightarrow>
          \<not> (\<exists>neg ip fp sp u. trim v = decimal_literal neg ip fp @ sp @ u \<and>
                list_all is_digit ip \<and> list_all is_digit fp \<and> (ip \<noteq> [] \<or> fp \<noteq> []) \<and>
                list_all is_space sp \<and> (u = [] \<or> toLowerCase u \<in> set unit_aliases))) \<and>
         (\<forall>e. parse v opts = Inl (InvalidFormat e) \<longrightarrow> e = v)"
  unfolding parse_invalid_format_iff[OF assms] scan_exec_accepts[symmetric]
  by (cases "scan_exec (trim v)") auto

text \<open>
  C5, as the claim states it, fails: the pattern has a starred space, and \<open>1  h\<close> with two
  spaces parses to an hour.
\<close>

theorem parse_accepts_exactly_counterexample:
  "parse ''1  h'' no_options = Inr 3600000 \<and>
   parse ''1  h'' no_options \<noteq> Inl (InvalidFormat ''1  h'')"
  by code_simp

text \<open>
  Instances: three spaces are accepted; a compound duration is not of the accepted form,
  and the error carries its leading space.
\<close>

theorem parse_accepts_exactly_witness:
  "\<not> (\<exists>e. parse ''1   h'' no_options = Inl (InvalidFormat e)) \<and>
   parse '' 1h 30m'' no_options = Inl (InvalidFormat '' 1h 30m'') \<and>
   \<not> (\<exists>neg ip fp sp u. trim '' 1h 30m'' = decimal_literal neg ip fp @ sp @ u \<and>
         list_all is_digit ip \<and> list_all is_digit fp \<and> (ip \<noteq> [] \<or> fp \<noteq> []) \<and>
         list_all is_space sp \<and> (u = [] \<or> toLowerCase u \<in> set unit_aliases))"
proof -
  have tr: "trim ''1   h'' = ''1   h''"
    by (simp add: trim_def is_white_space_def)
  have "trim ''1   h'' = decimal_literal False ''1'' [] @ ''   '' @ ''h'' \<and>
      list_all is_digit ''1'' \<and> list_all is_digit [] \<and> (''1'' \<noteq> [] \<or> [] \<noteq> ([]::string)) \<and>
      list_all is_space ''   '' \<and> (''h'' = [] \<or> toLowerCase ''h'' \<in> set unit_aliases)"
    unfolding tr by (simp add: eval_defs)
  then have ex: "\<exists>neg ip fp sp u. trim ''1   h'' = decimal_literal neg ip fp @ sp @ u \<and>
      list_all is_digit ip \<and> list_all is_digit fp \<and> (ip \<noteq> [] \<or> fp \<noteq> []) \<and>
      list_all is_space sp \<and> (u = [] \<or> toLowerCase u \<in> set unit_aliases)"
    by blast
  have h1: "''1   h'' \<noteq> []" by simp
  have h2: "\<not> js_gt (of_nat (length ''1   h'')) (maxLength_of no_options)"
    by (simp add: maxLength_of_def no_options_def)
  have 1: "\<not> (\<exists>e. parse ''1   h'' no_options = Inl (InvalidFormat e))"
    using parse_accepts_exactly[OF h1 h2] ex by blast
  have bad: "parse '' 1h 30m'' no_options = Inl (InvalidFormat '' 1h 30m'')"
    by code_simp
  have h3: "'' 1h 30m'' \<noteq> []" by simp
  have h4: "\<not> js_gt (of_nat (length '' 1h 30m'')) (maxLength_of no_options)"
    by (simp add: maxLength_of_def no_options_def)
  have 2: "\<not> (\<exists>neg ip fp sp u. trim '' 1h 30m'' = decimal_literal neg ip fp @ sp @ u \<and>
         list_all is_digit ip \<and> list_all is_digit fp \<and> (ip \<noteq> [] \<or> fp \<noteq> []) \<and>
         list_all is_space sp \<and> (u = [] \<or> toLowerCase u \<in> set unit_aliases))"
    using parse_accepts_exactly[OF h3 h4] bad by blast
  show ?thesis using 1 2 bad by blast
qed

subsection \<open>The length limit\<close>

text \<open>
  C8.  The empty input fails with \<open>EmptyInput\<close> whatever the limit.  A non-empty input
  fails with \<open>TooLong\<close> exactly when its length is greater than \<open>maxLength\<close> (100 by
  default); the error carries the limit and its message prints it.  An input whose
  length is within the limit is parsed as if there were no limit.
\<close>

theorem too_long_boundary:
  "parse [] opts = Inl EmptyInput \<and>
   (v \<noteq> [] \<longrightarrow>
      ((\<exists>m. parse v opts = Inl (TooLong m)) \<longleftrightarrow>
         js_gt (of_nat (length v)) (maxLength_of opts)) \<and>
      (parse v opts = Inl (TooLong m) \<longrightarrow> m = maxLength_of opts)) \<and>
   maxLength_of no_options = Num 100 \<and>
   message (TooLong m) =
     ''String too long. Maximum length is '' @ number_to_string m @ '' characters'' \<and>
   (\<not> js_gt (of_nat (length v)) (maxLength_of opts) \<longrightarrow>
      parse v opts = parse v (opts\<lparr>maxLength := Some PosInfinity\<rparr>))"
proof -
  have 1: "parse [] opts = Inl EmptyInput" by (simp add: parse_scan)
  have 2: "maxLength_of no_options = Num 100" by (simp add: maxLength_of_def no_options_def)
  have 3: "\<not> js_gt (of_nat (length v)) (maxLength_of opts) \<Longrightarrow>
      parse v opts = parse v (opts\<lparr>maxLength := Some PosInfinity\<rparr>)"
    by (simp add: parse_scan maxLength_of_def)
  show ?thesis
    using 1 2 3 parse_too_long_iff[of v opts] by auto
qed

text \<open>
  Instances: a valid input of exactly 100 characters parses, the same with one more
  character is too long, and the limit of the test suite.
\<close>

theorem too_long_boundary_witness:
  "length ''000000000000000000000000000000000000000000000000000000000000000000000000000000000000000000000000001h'' = 100 \<and>
   parse ''000000000000000000000000000000000000000000000000000000000000000000000000000000000000000000000000001h'' no_options = Inr 3600000 \<and>
   length ''0000000000000000000000000000000000000000000000000000000000000000000000000000000000000000000000000001h'' = 101 \<and>
   parse ''0000000000000000000000000000000000000000000000000000000000000000000000000000000000000000000000000001h'' no_options = Inl (TooLong (Num 100)) \<and>
   message (TooLong (Num 100)) = ''String too long. Maximum length is 100 characters'' \<and>
   parse ''1h'' (no_options\<lparr>maxLength := Some (Num 1)\<rparr>) = Inl (TooLong (Num 1)) \<and>
   parse [] (no_options\<lparr>maxLength := Some (Num (- 1))\<rparr>) = Inl EmptyInput"
proof -
  let ?v = "''000000000000000000000000000000000000000000000000000000000000000000000000000000000000000000000000001h''"
  let ?w = "''0000000000000000000000000000000000000000000000000000000000000000000000000000000000000000000000000001h''"
  have unl: "parse ?v (no_options\<lparr>maxLength := Some PosInfinity\<rparr>) = Inr 3600000"
    using parse_literal[where ip="''000000000000000000000000000000000000000000000000000000000000000000000000000000000000000000000000001''" and fp="[]" and sp="[]" and u="''h''"
        and neg=False and opts="no_options\<lparr>maxLength := Some PosInfinity\<rparr>"]
    by (simp add: is_digit_def is_upper_def is_lower_def is_letter_def toLowerCase_def
        to_lower_def decimal_value_def decimal_literal_def double_overflow_def maxLength_of_def
        unit_aliases_def to_double_def unit_switch_def const_defs digits_value_def
        digit_val_def)
  have lv: "length ?v = 100" and lw: "length ?w = 101" by simp_all
  have ok: "\<not> js_gt (of_nat (length ?v)) (maxLength_of no_options)"
    unfolding lv by (simp add: maxLength_of_def no_options_def)
  have long: "js_gt (of_nat (length ?w)) (maxLength_of no_options)"
    unfolding lw by (simp add: maxLength_of_def no_options_def)
  have 1: "parse ?v no_options = Inr 3600000"
    using too_long_boundary[of no_options ?v] ok unl by (simp add: no_options_def)
  have "?w \<noteq> []" by simp
  then have "\<exists>m. parse ?w no_options = Inl (TooLong m)"
    using too_long_boundary[of no_options ?w] long by blast
  then obtain m where m: "parse ?w no_options = Inl (TooLong m)" by blast
  have "m = Num 100"
    using too_long_boundary[of no_options ?w m] m \<open>?w \<noteq> []\<close> by simp
  with m have 2: "parse ?w no_options = Inl (TooLong (Num 100))" by simp
  have n100: "number_to_string (Num 100) = ''100''" by code_simp
  have 3: "message (TooLong (Num 100)) = ''String too long. Maximum length is 100 characters''"
    using too_long_boundary[of no_options "[]" "Num 100"] n100 by simp
  have 4: "parse ''1h'' (no_options\<lparr>maxLength := Some (Num 1)\<rparr>) = Inl (TooLong (Num 1))"
    by code_simp
  have 5: "parse [] (no_options\<lparr>maxLength := Some (Num (- 1))\<rparr>) = Inl EmptyInput"
    using too_long_boundary[of "no_options\<lparr>maxLength := Some (Num (- 1))\<rparr>"] by simp
  show ?thesis using lv lw 1 2 3 4 5 by blast
qed

section \<open>Round trip\<close>

text \<open>
  C7.  For each of the multipliers 1, 1000, 60000, 3600000, 86400000 and 604800000,
  parsing the formatted value gives the value back.  The year, 31557600000, formats to
  \<open>365d\<close>, which parses to 31536000000: within half a day of the year.
\<close>

theorem round_trip_canonical_units:
  "round_trip 1 = Inr 1 \<and>
   round_trip SECOND = Inr SECOND \<and> SECOND = 1000 \<and>
   round_trip MINUTE = Inr MINUTE \<and> MINUTE = 60000 \<and>
   round_trip HOUR = Inr HOUR \<and> HOUR = 3600000 \<and>
   round_trip DAY = Inr DAY \<and> DAY = 86400000 \<and>
   round_trip WEEK = Inr WEEK \<and> WEEK = 604800000 \<and>
   YEAR = 31557600000 \<and>
   format (Num YEAR) no_options = Inr ''365d'' \<and>
   round_trip YEAR = Inr 31536000000 \<and>
   \<bar>YEAR - 31536000000\<bar> \<le> DAY / 2"
  by code_simp

section \<open>The entry point\<close>

text \<open>
  C9.  On a string the entry point returns what \<open>parse\<close> returns, on a number what
  \<open>format\<close> returns, with the options passed on; on a value of any other type it fails
  with \<open>UnsupportedInputType\<close>.
\<close>

theorem ms_dispatch:
  "ms (VString s) ox = map_sum id RNumber (parse s (or_default ox)) \<and>
   ms (VNumber n) ox = map_sum id RString (format n (or_default ox)) \<and>
   (typeof v \<noteq> ''string'' \<and> typeof v \<noteq> ''number'' \<longrightarrow>
      ms v ox = Inl UnsupportedInputType)"
  by (cases v) (simp_all add: ms_def)

text \<open>Instances of the dispatch, among them the calls of the test suite.\<close>

theorem ms_dispatch_witness:
  "typeof VNull \<noteq> ''string'' \<and> typeof VNull \<noteq> ''number'' \<and>
   ms VNull None = Inl UnsupportedInputType \<and>
   ms VUndefined (Some no_options) = Inl UnsupportedInputType \<and>
   ms (VString ''1h'') None = Inr (RNumber 3600000) \<and>
   ms (VNumber (Num 3600000)) None = Inr (RString ''1h'') \<and>
   ms (VNumber (Num 3600000)) (Some (no_options\<lparr>long := True\<rparr>)) = Inr (RString ''1 hour'') \<and>
   ms (VNumber NaN) None = Inl NotFinite"
proof -
  have p: "parse ''1h'' (or_default None) = Inr 3600000" by code_simp
  have f: "format (Num 3600000) (or_default None) = Inr ''1h''" by code_simp
  have g: "format (Num 3600000) (or_default (Some (no_options\<lparr>long := True\<rparr>))) = Inr ''1 hour''"
    by code_simp
  have n: "format NaN (or_default None) = Inl NotFinite" by code_simp
  show ?thesis
    using ms_dispatch[of "''1h''" None "Num 3600000" VNull]
      ms_dispatch[of "''1h''" "Some no_options" "Num 3600000" VUndefined]
      ms_dispatch[of "''1h''" "Some (no_options\<lparr>long := True\<rparr>)" "Num 3600000" VNull]
      ms_dispatch[of "''1h''" None NaN VNull]
      p f g n
    by simp
qed

end
